theory Spec2Isabelle
  imports Complex_Main "HOL-Library.Word"
begin

section \<open>C strings and the string functions the sketches call\<close>

text \<open>
  A \<^verbatim>\<open>const char*\<close> is modelled by the bytes found at the pointer. The string it
  denotes ends before the first NUL byte; the end of the list counts as a NUL too, so a
  string literal is written without its terminator. \<open>cstr\<close> is the string a buffer
  denotes.
\<close>

definition NUL :: char where
  "NUL = CHR 0x00"

definition cstr :: "char list \<Rightarrow> string" where
  "cstr buf = takeWhile (\<lambda>c. c \<noteq> NUL) buf"

text \<open>\<^verbatim>\<open>strcmp\<close>: bytes are compared as unsigned char, up to and including the first NUL.\<close>

fun strcmp :: "char list \<Rightarrow> char list \<Rightarrow> int" where
  "strcmp [] [] = 0"
| "strcmp [] (c2 # s2) = - of_char c2"
| "strcmp (c1 # s1) [] = of_char c1"
| "strcmp (c1 # s1) (c2 # s2) =
     (if c1 \<noteq> c2 then of_char c1 - of_char c2
      else if c1 = NUL then 0
      else strcmp s1 s2)"

text \<open>\<^verbatim>\<open>strncmp\<close>: as \<^verbatim>\<open>strcmp\<close>, but at most \<open>n\<close> bytes are compared.\<close>

fun strncmp :: "char list \<Rightarrow> char list \<Rightarrow> nat \<Rightarrow> int" where
  "strncmp s1 s2 0 = 0"
| "strncmp [] [] (Suc n) = 0"
| "strncmp [] (c2 # s2) (Suc n) = - of_char c2"
| "strncmp (c1 # s1) [] (Suc n) = of_char c1"
| "strncmp (c1 # s1) (c2 # s2) (Suc n) =
     (if c1 \<noteq> c2 then of_char c1 - of_char c2
      else if c1 = NUL then 0
      else strncmp s1 s2 n)"

text \<open>
  \<^verbatim>\<open>strncpy(dst, src, n)\<close> writes exactly \<open>n\<close> bytes: the bytes of the source string,
  then NUL bytes up to \<open>n\<close>. \<open>strncpy src n\<close> is the list of the bytes written.
\<close>

fun strncpy :: "char list \<Rightarrow> nat \<Rightarrow> char list" where
  "strncpy src 0 = []"
| "strncpy [] (Suc n) = NUL # strncpy [] n"
| "strncpy (c # src) (Suc n) =
     (if c = NUL then NUL # strncpy [] n else c # strncpy src n)"

text \<open>
  \<^verbatim>\<open>strchr(s, c)\<close> for a byte \<open>c\<close> other than NUL: the suffix of the string that starts
  at the first occurrence of \<open>c\<close>, or \<open>None\<close> for the null pointer.
\<close>

fun strchr :: "char list \<Rightarrow> char \<Rightarrow> char list option" where
  "strchr [] c = None"
| "strchr (x # xs) c =
     (if x = NUL then None else if x = c then Some (x # xs) else strchr xs c)"

section \<open>Relay node: deduplication cache (Intermediate\_Nod.ino and the plain relay)\<close>

text \<open>
  \<^verbatim>\<open>unsigned long\<close> is 32 bits wide on the ESP8266 and the ESP32, so \<^verbatim>\<open>millis()\<close>
  readings and the counters are 32-bit words and their arithmetic wraps around.
\<close>

type_synonym millis = "32 word"

definition CACHE_SIZE :: nat where
  "CACHE_SIZE = 10"

definition DEDUPE_WINDOW :: millis where
  "DEDUPE_WINDOW = 5000"

definition MSG_BYTES :: nat where
  "MSG_BYTES = 64"

record MessageCache =
  msg :: "char list"
  timestamp :: millis

record relay =
  messageCache :: "MessageCache list"
  cacheIndex :: nat
  messagesReceived :: "32 word"
  messagesForwardedLoRa :: "32 word"
  messagesForwardedEspNow :: "32 word"
  messagesForwarded :: "32 word"
  messagesDuplicate :: "32 word"
  lastStatsDisplay :: millis
  rxLedOffTime :: millis
  txLedOffTime :: millis
  rxLed :: bool
  txLed :: bool

text \<open>
  The state after \<^verbatim>\<open>setup()\<close>: the global arrays start zeroed, \<^verbatim>\<open>setup()\<close> writes
  the first byte and the timestamp of every slot again, and both LEDs are low.
\<close>

definition relay_init :: relay where
  "relay_init =
     \<lparr> messageCache = replicate CACHE_SIZE \<lparr> msg = replicate MSG_BYTES NUL, timestamp = 0 \<rparr>,
       cacheIndex = 0,
       messagesReceived = 0, messagesForwardedLoRa = 0, messagesForwardedEspNow = 0,
       messagesForwarded = 0, messagesDuplicate = 0, lastStatsDisplay = 0,
       rxLedOffTime = 0, txLedOffTime = 0, rxLed = False, txLed = False \<rparr>"

text \<open>
  \<^verbatim>\<open>isDuplicate\<close>: the \<^verbatim>\<open>for\<close> loop over the slot indices, returning at the first slot
  that matches within the window. \<open>now\<close> is the reading of \<^verbatim>\<open>millis()\<close> the function
  takes.
\<close>

fun isDuplicate_loop :: "MessageCache list \<Rightarrow> char list \<Rightarrow> millis \<Rightarrow> nat list \<Rightarrow> bool" where
  "isDuplicate_loop cache m now [] = False"
| "isDuplicate_loop cache m now (i # is) =
     (if strcmp (msg (cache ! i)) m = 0 \<and> now - timestamp (cache ! i) < DEDUPE_WINDOW
      then True
      else isDuplicate_loop cache m now is)"

definition isDuplicate :: "relay \<Rightarrow> char list \<Rightarrow> millis \<Rightarrow> bool" where
  "isDuplicate st m now = isDuplicate_loop (messageCache st) m now [0..<CACHE_SIZE]"

text \<open>
  \<^verbatim>\<open>cacheMessage\<close>: \<^verbatim>\<open>strncpy\<close> overwrites the first 63 bytes of the slot, byte 63 is
  set to NUL, the slot takes the time \<open>now\<close> read by \<^verbatim>\<open>millis()\<close>, and the index
  advances around the ring.
\<close>

definition cacheMessage :: "relay \<Rightarrow> char list \<Rightarrow> millis \<Rightarrow> relay" where
  "cacheMessage st m now =
     (let old = msg (messageCache st ! cacheIndex st);
          copied = strncpy m (MSG_BYTES - 1) @ drop (MSG_BYTES - 1) old;
          entry = \<lparr> msg = copied[MSG_BYTES - 1 := NUL], timestamp = now \<rparr>
      in st\<lparr> messageCache := (messageCache st)[cacheIndex st := entry],
             cacheIndex := (cacheIndex st + 1) mod CACHE_SIZE \<rparr>)"

text \<open>\<^verbatim>\<open>isValidMessage\<close>, the same text in both relay sketches.\<close>

definition isValidMessage :: "char list \<Rightarrow> bool" where
  "isValidMessage m =
     (if strncmp m ''FIRE'' 4 = 0 then True
      else if strncmp m ''EARTHQUAKE'' 10 = 0 then True
      else False)"

text \<open>
  The shape every reachable relay state has: ten slots of 64 bytes, each ending in NUL,
  and a ring index inside the array.
\<close>

definition entry_ok :: "MessageCache \<Rightarrow> bool" where
  "entry_ok e = (length (msg e) = MSG_BYTES \<and> msg e ! (MSG_BYTES - 1) = NUL)"

definition cache_ok :: "relay \<Rightarrow> bool" where
  "cache_ok st =
     (length (messageCache st) = CACHE_SIZE \<and> cacheIndex st < CACHE_SIZE \<and>
      list_all entry_ok (messageCache st))"

section \<open>Floating point\<close>

text \<open>
  The sketches compute with \<^verbatim>\<open>float\<close>. Its arithmetic, the mathematical library and the
  conversions between text and numbers are not part of the repository; they are taken
  as a parameter \<open>fp\<close>, a record of the operations over an arbitrary carrier \<open>'f\<close> of
  float values. Nothing is assumed about them, so what is proved holds whatever the
  rounding, and also where a value is an infinity or not a number.
  \<open>flit m k\<close> is the literal \<open>m / 10 ^ k\<close>, \<open>flt a b\<close> the comparison \<^verbatim>\<open>a < b\<close>,
  \<open>ffmt x d\<close> the text \<^verbatim>\<open>printf("%.df", x)\<close> prints.
\<close>

record 'f fpu =
  flit :: "int \<Rightarrow> nat \<Rightarrow> 'f"
  fadd :: "'f \<Rightarrow> 'f \<Rightarrow> 'f"
  fsub :: "'f \<Rightarrow> 'f \<Rightarrow> 'f"
  fmul :: "'f \<Rightarrow> 'f \<Rightarrow> 'f"
  fdiv :: "'f \<Rightarrow> 'f \<Rightarrow> 'f"
  fsqrt :: "'f \<Rightarrow> 'f"
  fsin :: "'f \<Rightarrow> 'f"
  fcos :: "'f \<Rightarrow> 'f"
  fatan2 :: "'f \<Rightarrow> 'f \<Rightarrow> 'f"
  flt :: "'f \<Rightarrow> 'f \<Rightarrow> bool"
  atof :: "char list \<Rightarrow> 'f"
  ffmt :: "'f \<Rightarrow> nat \<Rightarrow> string"

definition PI :: "'f fpu \<Rightarrow> 'f" where
  "PI fp = flit fp 31415926535897932384626433832795 31"

section \<open>Relay node: transport selection and the main loop\<close>

definition DISTANCE_THRESHOLD_METERS :: "'f fpu \<Rightarrow> 'f" where
  "DISTANCE_THRESHOLD_METERS fp = flit fp 500 1"

definition RECEIVER_LAT :: "'f fpu \<Rightarrow> 'f" where
  "RECEIVER_LAT fp = flit fp 30768885 6"

definition RECEIVER_LNG :: "'f fpu \<Rightarrow> 'f" where
  "RECEIVER_LNG fp = flit fp 7657521 5"

definition LED_BLINK_MS :: millis where
  "LED_BLINK_MS = 300"

definition calculateDistance :: "'f fpu \<Rightarrow> 'f \<Rightarrow> 'f \<Rightarrow> 'f \<Rightarrow> 'f \<Rightarrow> 'f" where
  "calculateDistance fp lat1 lon1 lat2 lon2 =
     (let R = flit fp 6371000 0;
          phi1 = fdiv fp (fmul fp lat1 (PI fp)) (flit fp 180 0);
          phi2 = fdiv fp (fmul fp lat2 (PI fp)) (flit fp 180 0);
          deltaPhi = fdiv fp (fmul fp (fsub fp lat2 lat1) (PI fp)) (flit fp 180 0);
          deltaLambda = fdiv fp (fmul fp (fsub fp lon2 lon1) (PI fp)) (flit fp 180 0);
          sPhi = fsin fp (fdiv fp deltaPhi (flit fp 2 0));
          sLambda = fsin fp (fdiv fp deltaLambda (flit fp 2 0));
          a = fadd fp (fmul fp sPhi sPhi)
                (fmul fp (fmul fp (fmul fp (fcos fp phi1) (fcos fp phi2)) sLambda) sLambda);
          c = fmul fp (flit fp 2 0) (fatan2 fp (fsqrt fp a) (fsqrt fp (fsub fp (flit fp 1 0) a)))
      in fmul fp R c)"

text \<open>
  What one pass of the relay's \<^verbatim>\<open>loop()\<close> reads from outside: the bytes of the packet
  \<^verbatim>\<open>LoRa.parsePacket()\<close> found (none when it returns 0), each reading of \<^verbatim>\<open>millis()\<close>
  by the place that takes it, the results of the two send primitives, and the value of
  \<^verbatim>\<open>random(50, 150)\<close>.
\<close>

record relay_env =
  packet :: "char list"
  t_loop :: millis
  t_blinkRx :: millis
  t_isDuplicate :: millis
  t_cacheMessage :: millis
  t_blinkTx :: millis
  esp_now_send_result :: int
  endPacket_result :: int
  random_50_150 :: nat

text \<open>
  What a pass does to the outside, in program order. Of the serial output only the lines
  that report a decision are kept, one constructor per line; the lines that print
  measurements (signal strength, distance, statistics) are left out.
\<close>

datatype serial_line =
    InvalidFormat | DuplicateDropped
  | ForwardedEspNow | EspNowForwardFailed | ForwardedLoRa | LoRaForwardFailed
  | Forwarded string | ForwardFailed

datatype event =
    Serial serial_line
  | EspNowSend "char list" int
  | LoRaSend string int
  | Delay nat

definition blinkRxLed :: "relay \<Rightarrow> millis \<Rightarrow> relay" where
  "blinkRxLed st t = st\<lparr> rxLed := True, rxLedOffTime := t + LED_BLINK_MS \<rparr>"

definition blinkTxLed :: "relay \<Rightarrow> millis \<Rightarrow> relay" where
  "blinkTxLed st t = st\<lparr> txLed := True, txLedOffTime := t + LED_BLINK_MS \<rparr>"

text \<open>
  The part of the hybrid relay's \<^verbatim>\<open>forwardMessage\<close> after the distance is known
  (the \<^verbatim>\<open>if (dist < DISTANCE_THRESHOLD_METERS)\<close> statement), for any distance and
  threshold. The ESP-NOW frame is the 64-byte struct: 63 bytes from \<^verbatim>\<open>strncpy\<close> and a
  final NUL.
\<close>

definition forwardMessage_send ::
    "'f fpu \<Rightarrow> relay \<Rightarrow> char list \<Rightarrow> 'f \<Rightarrow> 'f \<Rightarrow> relay_env \<Rightarrow> relay \<times> event list" where
  "forwardMessage_send fp st m distance threshold env =
     (if flt fp distance threshold then
        (let espMsg = strncpy m (MSG_BYTES - 1) @ [NUL];
             result = esp_now_send_result env
         in if result = 0
            then (blinkTxLed (st\<lparr> messagesForwardedEspNow := messagesForwardedEspNow st + 1 \<rparr>)
                    (t_blinkTx env),
                  [EspNowSend espMsg result, Serial ForwardedEspNow])
            else (st, [EspNowSend espMsg result, Serial EspNowForwardFailed]))
      else
        (let result = endPacket_result env
         in if result \<noteq> 0
            then (blinkTxLed (st\<lparr> messagesForwardedLoRa := messagesForwardedLoRa st + 1 \<rparr>)
                    (t_blinkTx env),
                  [LoRaSend (cstr m) result, Serial ForwardedLoRa])
            else (st, [LoRaSend (cstr m) result, Serial LoRaForwardFailed])))"

text \<open>The coordinates \<^verbatim>\<open>forwardMessage\<close> reads from the message: 0 where a comma is missing.\<close>

definition parseCoordinates :: "'f fpu \<Rightarrow> char list \<Rightarrow> 'f \<times> 'f" where
  "parseCoordinates fp m =
     (case strchr m (CHR '','') of
        None \<Rightarrow> (flit fp 0 0, flit fp 0 0)
      | Some p \<Rightarrow>
          (let p1 = tl p; transLat = atof fp p1
           in case strchr p1 (CHR '','') of
                None \<Rightarrow> (transLat, flit fp 0 0)
              | Some q \<Rightarrow> (transLat, atof fp (tl q))))"

definition forwardMessage :: "'f fpu \<Rightarrow> relay \<Rightarrow> char list \<Rightarrow> relay_env \<Rightarrow> relay \<times> event list" where
  "forwardMessage fp st m env =
     (let (transLat, transLng) = parseCoordinates fp m;
          distance = calculateDistance fp transLat transLng (RECEIVER_LAT fp) (RECEIVER_LNG fp)
      in forwardMessage_send fp st m distance (DISTANCE_THRESHOLD_METERS fp) env)"

text \<open>\<^verbatim>\<open>forwardMessage\<close> of the plain relay: one transport, after a random delay.\<close>

definition forwardMessage_relay :: "relay \<Rightarrow> char list \<Rightarrow> relay_env \<Rightarrow> relay \<times> event list" where
  "forwardMessage_relay st m env =
     (let result = endPacket_result env;
          success = (result \<noteq> 0)
      in if success
         then (blinkTxLed st (t_blinkTx env) \<lparr> messagesForwarded := messagesForwarded st + 1 \<rparr>,
               [Delay (random_50_150 env), LoRaSend (cstr m) result, Serial (Forwarded (cstr m))])
         else (st, [Delay (random_50_150 env), LoRaSend (cstr m) result, Serial ForwardFailed]))"

text \<open>
  The packet read of \<^verbatim>\<open>loop()\<close>: bytes are taken while some are available and fewer
  than 63 are stored; then the terminator is written. The result is the written part of
  the local buffer.
\<close>

fun read_bytes :: "char list \<Rightarrow> char list \<Rightarrow> char list" where
  "read_bytes [] buf = buf"
| "read_bytes (b # rest) buf =
     (if length buf < MSG_BYTES - 1 then read_bytes rest (buf @ [b]) else buf)"

definition read_packet :: "char list \<Rightarrow> char list" where
  "read_packet bytes = read_bytes bytes [] @ [NUL]"

definition ledTimeouts :: "relay \<Rightarrow> millis \<Rightarrow> relay" where
  "ledTimeouts st now =
     (let st1 = (if rxLedOffTime st \<le> now \<and> rxLed st then st\<lparr> rxLed := False \<rparr> else st)
      in if txLedOffTime st1 \<le> now \<and> txLed st1 then st1\<lparr> txLed := False \<rparr> else st1)"

definition displayStatistics :: "relay \<Rightarrow> millis \<Rightarrow> relay" where
  "displayStatistics st now =
     (if 10000 \<le> now - lastStatsDisplay st then st\<lparr> lastStatsDisplay := now \<rparr> else st)"

text \<open>
  \<^verbatim>\<open>loop()\<close> of both relays, which differ only in the \<^verbatim>\<open>forwardMessage\<close> they call
  (\<open>fwd\<close>). The two \<^verbatim>\<open>return\<close> statements leave the pass before the statistics.
\<close>

definition relay_loop ::
    "(relay \<Rightarrow> char list \<Rightarrow> relay_env \<Rightarrow> relay \<times> event list) \<Rightarrow> relay \<Rightarrow> relay_env
       \<Rightarrow> relay \<times> event list" where
  "relay_loop fwd st env =
     (let now = t_loop env;
          st1 = ledTimeouts st now
      in if packet env \<noteq> [] then
           (let m = read_packet (packet env);
                st2 = blinkRxLed (st1\<lparr> messagesReceived := messagesReceived st1 + 1 \<rparr>)
                        (t_blinkRx env)
            in if \<not> isValidMessage m then (st2, [Serial InvalidFormat])
               else if isDuplicate st2 m (t_isDuplicate env)
               then (st2\<lparr> messagesDuplicate := messagesDuplicate st2 + 1 \<rparr>,
                     [Serial DuplicateDropped])
               else
                 (let st3 = cacheMessage st2 m (t_cacheMessage env);
                      (st4, out) = fwd st3 m env
                  in (displayStatistics st4 now, out)))
         else (displayStatistics st1 now, []))"

definition loop_hybrid :: "'f fpu \<Rightarrow> relay \<Rightarrow> relay_env \<Rightarrow> relay \<times> event list" where
  "loop_hybrid fp = relay_loop (forwardMessage fp)"

definition loop_relay :: "relay \<Rightarrow> relay_env \<Rightarrow> relay \<times> event list" where
  "loop_relay = relay_loop forwardMessage_relay"

section \<open>Transmitter: fire and quake detection\<close>

definition FLAME_SAMPLES_NEEDED :: int where
  "FLAME_SAMPLES_NEEDED = 3"

definition FIRE_MIN_INTERVAL :: millis where
  "FIRE_MIN_INTERVAL = 5000"

definition ALPHA :: "'f fpu \<Rightarrow> 'f" where
  "ALPHA fp = flit fp 5 1"

definition QUAKE_THRESHOLD :: "'f fpu \<Rightarrow> 'f" where
  "QUAKE_THRESHOLD fp = flit fp 12 2"

definition WINDOW_SIZE :: nat where
  "WINDOW_SIZE = 10"

definition FALLBACK_LAT :: "'f fpu \<Rightarrow> 'f" where
  "FALLBACK_LAT fp = flit fp 30768885 6"

definition FALLBACK_LNG :: "'f fpu \<Rightarrow> 'f" where
  "FALLBACK_LNG fp = flit fp 7657521 5"

definition INT_MAX :: int where
  "INT_MAX = 2147483647"

text \<open>
  The globals of the transmitter that detection reads and writes, with the function-static
  \<^verbatim>\<open>fireCount\<close>. The LED, the status line, the feeding of the GPS decoder and the
  delay that ends a pass are left out: none of them writes a variable kept here. \<^verbatim>\<open>fireCount\<close> is a C
  \<^verbatim>\<open>int\<close>; it is an integer here, and the statements about it are made for values below
  \<open>INT_MAX\<close>, where the increment is defined.
\<close>

record 'f transmitter =
  fireCount :: int
  filteredAccel :: 'f
  quakeWindow :: "int list"
  windowIndex :: nat
  lastFireAlert :: millis
  lastQuakeAlert :: millis
  loraReady :: bool
  accelReady :: bool

text \<open>What one pass of the transmitter's \<^verbatim>\<open>loop()\<close> reads from its sensors.\<close>

record 'f sample =
  flame_pin_low :: bool
  accel_x :: 'f
  accel_y :: 'f
  accel_z :: 'f
  gps_valid :: bool
  gps_lat :: 'f
  gps_lng :: 'f
  gps_sats :: "32 word"

definition transmitter_init :: "'f fpu \<Rightarrow> 'f transmitter" where
  "transmitter_init fp =
     \<lparr> fireCount = 0, filteredAccel = flit fp 0 0,
       quakeWindow = replicate WINDOW_SIZE 0, windowIndex = 0,
       lastFireAlert = 0, lastQuakeAlert = 0, loraReady = True, accelReady = True \<rparr>"

text \<open>\<^verbatim>\<open>%u\<close>: an unsigned number in decimal.\<close>

fun utoa :: "nat \<Rightarrow> string" where
  "utoa n =
     (if n < 10 then [''0123456789'' ! n]
      else utoa (n div 10) @ [''0123456789'' ! (n mod 10)])"

text \<open>
  \<^verbatim>\<open>sendLoRaAlert\<close>: the packets it sends, none when the radio is not ready. The payload
  is what \<^verbatim>\<open>snprintf\<close> leaves in the 80-byte buffer.
\<close>

definition sendLoRaAlert ::
    "'f fpu \<Rightarrow> 'f transmitter \<Rightarrow> 'f sample \<Rightarrow> string \<Rightarrow> 'f \<Rightarrow> string list" where
  "sendLoRaAlert fp st smp type extra =
     (if \<not> loraReady st then []
      else
        (let currentLat = (if gps_valid smp then gps_lat smp else FALLBACK_LAT fp);
             currentLng = (if gps_valid smp then gps_lng smp else FALLBACK_LNG fp);
             payload = take 79 (cstr type @ '','' @ ffmt fp currentLat 6 @ '','' @
                         ffmt fp currentLng 6 @ '','' @ ffmt fp extra 2 @ '',Sats:'' @
                         utoa (unat (gps_sats smp)))
         in [cstr payload]))"

text \<open>The fire block of \<^verbatim>\<open>loop()\<close>.\<close>

definition loop_fire_detection ::
    "'f fpu \<Rightarrow> 'f transmitter \<Rightarrow> 'f sample \<Rightarrow> millis \<Rightarrow> 'f transmitter \<times> string list" where
  "loop_fire_detection fp st smp now =
     (let flameDetected = flame_pin_low smp;
          st1 = (if flameDetected then st\<lparr> fireCount := fireCount st + 1 \<rparr>
                 else if 0 < fireCount st then st\<lparr> fireCount := fireCount st - 1 \<rparr>
                 else st)
      in if FLAME_SAMPLES_NEEDED \<le> fireCount st1 \<and> FIRE_MIN_INTERVAL < now - lastFireAlert st1
         then (st1\<lparr> lastFireAlert := now, fireCount := 0 \<rparr>,
               sendLoRaAlert fp st1 smp ''FIRE'' (flit fp 10 1))
         else (st1, []))"

text \<open>The earthquake block of \<^verbatim>\<open>loop()\<close>; \<open>shakeCount\<close> is the summing \<^verbatim>\<open>for\<close> loop.\<close>

definition shakeCount :: "int list \<Rightarrow> int" where
  "shakeCount w = foldl (\<lambda>acc i. acc + w ! i) 0 [0..<WINDOW_SIZE]"

definition loop_quake_detection ::
    "'f fpu \<Rightarrow> 'f transmitter \<Rightarrow> 'f sample \<Rightarrow> millis \<Rightarrow> 'f transmitter \<times> string list" where
  "loop_quake_detection fp st smp now =
     (if accelReady st then
        (let ax = fdiv fp (accel_x smp) (flit fp 981 2);
             ay = fdiv fp (accel_y smp) (flit fp 981 2);
             az = fsub fp (fdiv fp (accel_z smp) (flit fp 981 2)) (flit fp 10 1);
             rawAccel = fsqrt fp (fadd fp (fadd fp (fmul fp ax ax) (fmul fp ay ay)) (fmul fp az az));
             filtered = fadd fp (fmul fp (ALPHA fp) rawAccel)
                          (fmul fp (fsub fp (flit fp 1 0) (ALPHA fp)) (filteredAccel st));
             vote = (if flt fp (QUAKE_THRESHOLD fp) filtered then 1 else 0);
             st1 = st\<lparr> filteredAccel := filtered,
                       quakeWindow := (quakeWindow st)[windowIndex st := vote],
                       windowIndex := (windowIndex st + 1) mod WINDOW_SIZE \<rparr>
         in if 4 \<le> shakeCount (quakeWindow st1) \<and> 5000 < now - lastQuakeAlert st1
            then (st1\<lparr> lastQuakeAlert := now \<rparr>,
                  sendLoRaAlert fp st1 smp ''QUAKE'' (filteredAccel st1))
            else (st1, []))
      else (st, []))"

definition loop_transmitter ::
    "'f fpu \<Rightarrow> 'f transmitter \<Rightarrow> 'f sample \<Rightarrow> millis \<Rightarrow> 'f transmitter \<times> string list" where
  "loop_transmitter fp st smp now =
     (let (st1, sent1) = loop_fire_detection fp st smp now;
          (st2, sent2) = loop_quake_detection fp st1 smp now
      in (st2, sent1 @ sent2))"

text \<open>
  The transmitter run over a sequence of passes, each with its sample and its time: the
  state after every pass and the packets the pass sent.
\<close>

fun run_transmitter ::
    "'f fpu \<Rightarrow> 'f transmitter \<Rightarrow> ('f sample \<times> millis) list
       \<Rightarrow> ('f transmitter \<times> string list) list" where
  "run_transmitter fp st [] = []"
| "run_transmitter fp st ((smp, now) # rest) =
     (let r = loop_transmitter fp st smp now in r # run_transmitter fp (fst r) rest)"


section \<open>Receiver: decoding\<close>

datatype AlertType = NONE | FIRE | QUAKE

record 'f decoded =
  type :: AlertType
  lat :: 'f
  lng :: 'f
  extra :: 'f

definition parseFields :: "'f fpu \<Rightarrow> AlertType \<Rightarrow> char list \<Rightarrow> 'f decoded" where
  "parseFields fp ty m =
     (let z = flit fp 0 0
      in case strchr m (CHR '','') of
           None \<Rightarrow> \<lparr> type = ty, lat = z, lng = z, extra = z \<rparr>
         | Some p \<Rightarrow>
             (let p1 = tl p; la = atof fp p1
              in case strchr p1 (CHR '','') of
                   None \<Rightarrow> \<lparr> type = ty, lat = la, lng = z, extra = z \<rparr>
                 | Some p \<Rightarrow>
                     (let p2 = tl p; lo = atof fp p2
                      in case strchr p2 (CHR '','') of
                           None \<Rightarrow> \<lparr> type = ty, lat = la, lng = lo, extra = z \<rparr>
                         | Some p \<Rightarrow> \<lparr> type = ty, lat = la, lng = lo, extra = atof fp (tl p) \<rparr>)))"

definition parseMessage :: "'f fpu \<Rightarrow> char list \<Rightarrow> 'f decoded" where
  "parseMessage fp m =
     (if strncmp m ''FIRE'' 4 = 0 then parseFields fp FIRE m
      else if strncmp m ''QUAKE'' 5 = 0 then parseFields fp QUAKE m
      else \<lparr> type = NONE, lat = flit fp 0 0, lng = flit fp 0 0, extra = flit fp 0 0 \<rparr>)"

section \<open>Definitions used to state the properties\<close>

text \<open>
  Recording a sequence of texts, each at its time.
\<close>

definition cacheMessages :: "relay \<Rightarrow> (char list \<times> millis) list \<Rightarrow> relay" where
  "cacheMessages st rs = foldl (\<lambda>s r. cacheMessage s (fst r) (snd r)) st rs"

text \<open>
  The transport of every send attempt among the events of a pass, in order.
\<close>

datatype transport = SHORT_RANGE | LONG_RANGE

fun transports :: "event list \<Rightarrow> transport list" where
  "transports [] = []"
| "transports (EspNowSend bytes r # es) = SHORT_RANGE # transports es"
| "transports (LoRaSend p r # es) = LONG_RANGE # transports es"
| "transports (e # es) = transports es"

text \<open>
  The state in which \<^verbatim>\<open>loop()\<close> calls \<^verbatim>\<open>forwardMessage\<close> for a packet that is
  valid and not a duplicate: after the LED timeouts, the reception count, the blink and
  \<^verbatim>\<open>cacheMessage\<close>.
\<close>

definition forward_start :: "relay \<Rightarrow> relay_env \<Rightarrow> relay" where
  "forward_start st env =
     (let st1 = ledTimeouts st (t_loop env);
          st2 = blinkRxLed (st1\<lparr> messagesReceived := messagesReceived st1 + 1 \<rparr>) (t_blinkRx env)
      in cacheMessage st2 (read_packet (packet env)) (t_cacheMessage env))"

text \<open>
  A forwarding function that leaves the cache as it is.
\<close>

definition keeps_cache :: "(relay \<Rightarrow> char list \<Rightarrow> relay_env \<Rightarrow> relay \<times> event list) \<Rightarrow> bool" where
  "keeps_cache fwd =
     (\<forall>s m e. messageCache (fst (fwd s m e)) = messageCache s \<and>
              cacheIndex (fst (fwd s m e)) = cacheIndex s)"

text \<open>
  An instance of the float operations on which the statements are checked at concrete
  inputs: exact arithmetic on the reals, and decimal text without exponent, which is the
  form of the numbers the nodes send.
\<close>

fun scan_digits :: "char list \<Rightarrow> nat \<Rightarrow> nat \<Rightarrow> nat \<times> nat \<times> char list" where
  "scan_digits [] v k = (v, k, [])"
| "scan_digits (c # cs) v k =
     (if c \<in> set ''0123456789'' then scan_digits cs (10 * v + (of_char c - 48)) (Suc k)
      else (v, k, c # cs))"

definition atof_decimal :: "char list \<Rightarrow> real" where
  "atof_decimal s =
     (let (neg, s1) = (case s of
                         [] \<Rightarrow> (False, [])
                       | c # cs \<Rightarrow> if c = CHR ''-'' then (True, cs)
                                   else if c = CHR ''+'' then (False, cs) else (False, s));
          (ip, _, s2) = scan_digits s1 0 0;
          (fr, k, _) = (case s2 of
                          [] \<Rightarrow> (0, 0, [])
                        | c # cs \<Rightarrow> if c = CHR ''.'' then scan_digits cs 0 0 else (0, 0, s2));
          v = real ip + real fr / 10 ^ k
      in if neg then - v else v)"

definition ffmt_decimal :: "real \<Rightarrow> nat \<Rightarrow> string" where
  "ffmt_decimal x d =
     (let n = nat \<lfloor>\<bar>x\<bar> * 10 ^ d + 1 / 2\<rfloor>;
          frac = utoa (n mod 10 ^ d)
      in (if x < 0 then ''-'' else []) @ utoa (n div 10 ^ d) @
         (if d = 0 then [] else ''.'' @ replicate (d - length frac) (CHR ''0'') @ frac))"

definition atan2_ideal :: "real \<Rightarrow> real \<Rightarrow> real" where
  "atan2_ideal y x =
     (if 0 < x then arctan (y / x)
      else if x < 0 \<and> 0 \<le> y then arctan (y / x) + pi
      else if x < 0 then arctan (y / x) - pi
      else if 0 < y then pi / 2
      else if y < 0 then - pi / 2
      else 0)"

definition ideal_fpu :: "real fpu" where
  "ideal_fpu =
     \<lparr> flit = (\<lambda>m k. real_of_int m / 10 ^ k),
       fadd = (+), fsub = (-), fmul = (*), fdiv = (/),
       fsqrt = sqrt, fsin = sin, fcos = cos, fatan2 = atan2_ideal,
       flt = (<), atof = atof_decimal, ffmt = ffmt_decimal \<rparr>"

text \<open>
  Concrete inputs: the payloads the transmitter sends for a fire and for a quake, one
  pass of the relay, a packet longer than the read buffer, ten further messages, and
  transmitter states and samples.
\<close>

definition fire_payload :: string where
  "fire_payload = ''FIRE,30.768885,76.575210,1.00''"

definition quake_payload :: string where
  "quake_payload = ''QUAKE,30.768885,76.575210,0.25''"

definition env0 :: relay_env where
  "env0 =
     \<lparr> packet = fire_payload, t_loop = 1000, t_blinkRx = 1000, t_isDuplicate = 1001,
       t_cacheMessage = 1001, t_blinkTx = 1100, esp_now_send_result = 0,
       endPacket_result = 1, random_50_150 = 97 \<rparr>"

declare utoa.simps [simp del]

definition long_packet :: "string \<Rightarrow> char list" where
  "long_packet tail = ''FIRE,'' @ replicate 58 (CHR ''7'') @ tail"

definition ten_others :: "(char list \<times> millis) list" where
  "ten_others =
     [(''FIRE,0'', 2000), (''FIRE,1'', 2001), (''FIRE,2'', 2002), (''FIRE,3'', 2003),
      (''FIRE,4'', 2004), (''FIRE,5'', 2005), (''FIRE,6'', 2006), (''FIRE,7'', 2007),
      (''FIRE,8'', 2008), (''FIRE,9'', 2009)]"

text \<open>
  Whether a pass sent a FIRE packet, or a QUAKE packet: a payload begins with the kind
  and the comma.
\<close>

definition fire_sent :: "string list \<Rightarrow> bool" where
  "fire_sent sent = list_ex (\<lambda>p. take 5 p = ''FIRE,'') sent"

definition quake_sent :: "string list \<Rightarrow> bool" where
  "quake_sent sent = list_ex (\<lambda>p. take 6 p = ''QUAKE,'') sent"

text \<open>
  The debounce counter as the specification words it: a running sum of +1 on detection
  and -1 otherwise, clipped at 0 at each step; an alert when the sum is at least 3 and
  more than 5000 ms have passed since the last one, which resets the sum.
\<close>

fun fire_spec :: "int \<Rightarrow> millis \<Rightarrow> (bool \<times> millis) list \<Rightarrow> (int \<times> bool) list" where
  "fire_spec c lastAlert [] = []"
| "fire_spec c lastAlert ((flame, now) # rest) =
     (let c1 = max 0 (c + (if flame then 1 else - 1));
          alert = (3 \<le> c1 \<and> 5000 < now - lastAlert)
      in (if alert then 0 else c1, alert) #
         fire_spec (if alert then 0 else c1) (if alert then now else lastAlert) rest)"

text \<open>
  The fields of a message as the specification words them: the texts that follow each
  comma, in order; a field whose comma is missing is 0.0.
\<close>

fun after_commas :: "char list \<Rightarrow> char list list" where
  "after_commas [] = []"
| "after_commas (c # cs) =
     (if c = NUL then []
      else if c = CHR '','' then cs # after_commas cs
      else after_commas cs)"

definition field :: "'f fpu \<Rightarrow> char list \<Rightarrow> nat \<Rightarrow> 'f" where
  "field fp m k =
     (if k < length (after_commas m) then atof fp (after_commas m ! k) else flit fp 0 0)"



definition burning :: "real sample" where
  "burning =
     \<lparr> flame_pin_low = True, accel_x = 0, accel_y = 0, accel_z = 9.81,
       gps_valid = False, gps_lat = 0, gps_lng = 0, gps_sats = 0 \<rparr>"

section \<open>Facts about the string functions\<close>

lemma of_char_int_eq_0: "(of_char c :: int) = 0 \<longleftrightarrow> c = NUL"
proof -
  have "(of_char c :: int) = of_char NUL \<longleftrightarrow> c = NUL"
    by (rule of_char_eq_iff)
  then show ?thesis by (simp add: NUL_def)
qed

lemma strcmp_0_iff: "strcmp a b = 0 \<longleftrightarrow> cstr a = cstr b"
proof (induction a b rule: strcmp.induct)
  case 1
  show ?case by (simp add: cstr_def)
next
  case (2 c2 s2)
  show ?case using of_char_int_eq_0 [of c2] by (auto simp: cstr_def)
next
  case (3 c1 s1)
  show ?case using of_char_int_eq_0 [of c1] by (auto simp: cstr_def)
next
  case (4 c1 s1 c2 s2)
  have neq: "c1 \<noteq> c2 \<Longrightarrow> (of_char c1 :: int) - of_char c2 \<noteq> 0"
    by simp
  show ?case
  proof (cases "c1 = c2")
    case False
    then show ?thesis using neq by (auto simp: cstr_def)
  next
    case True
    then show ?thesis using 4 by (auto simp: cstr_def)
  qed
qed

lemma strncmp_0_iff:
  "NUL \<notin> set p \<Longrightarrow> n = length p \<Longrightarrow> strncmp s p n = 0 \<longleftrightarrow> take n (cstr s) = p"
proof (induction s p n rule: strncmp.induct)
  case (1 s1 s2)
  then show ?case by simp
next
  case (2 n)
  then show ?case by simp
next
  case (3 c2 s2 n)
  then show ?case using of_char_int_eq_0 [of c2] by (auto simp: cstr_def)
next
  case (4 c1 s1 n)
  then show ?case by simp
next
  case (5 c1 s1 c2 s2 n)
  have neq: "c1 \<noteq> c2 \<Longrightarrow> (of_char c1 :: int) - of_char c2 \<noteq> 0"
    by simp
  show ?case
  proof (cases "c1 = c2")
    case False
    then show ?thesis using neq by (auto simp: cstr_def)
  next
    case True
    then show ?thesis using 5 by (auto simp: cstr_def)
  qed
qed

lemma isValidMessage_iff:
  "isValidMessage m \<longleftrightarrow> take 4 (cstr m) = ''FIRE'' \<or> take 10 (cstr m) = ''EARTHQUAKE''"
proof -
  have a: "strncmp m ''FIRE'' 4 = 0 \<longleftrightarrow> take 4 (cstr m) = ''FIRE''"
    by (rule strncmp_0_iff) (simp_all add: NUL_def)
  have b: "strncmp m ''EARTHQUAKE'' 10 = 0 \<longleftrightarrow> take 10 (cstr m) = ''EARTHQUAKE''"
    by (rule strncmp_0_iff) (simp_all add: NUL_def)
  show ?thesis unfolding isValidMessage_def using a b by simp
qed

lemma length_strncpy: "length (strncpy src n) = n"
  by (induction src n rule: strncpy.induct) auto

lemma cstr_strncpy: "cstr (strncpy src n @ NUL # rest) = take n (cstr src)"
  by (induction src n rule: strncpy.induct) (auto simp: cstr_def)

section \<open>The deduplication cache\<close>

lemma isDuplicate_loop_iff:
  "isDuplicate_loop cache m now is \<longleftrightarrow>
     (\<exists>i \<in> set is. cstr (msg (cache ! i)) = cstr m \<and> now - timestamp (cache ! i) < DEDUPE_WINDOW)"
  by (induction "is") (auto simp: strcmp_0_iff)

lemma isDuplicate_iff:
  "isDuplicate st m now \<longleftrightarrow>
     (\<exists>i < CACHE_SIZE. cstr (msg (messageCache st ! i)) = cstr m \<and>
        now - timestamp (messageCache st ! i) < DEDUPE_WINDOW)"
  by (auto simp: isDuplicate_def isDuplicate_loop_iff)

lemma cstr_strncpy_only: "cstr (strncpy src n) = take n (cstr src)"
  by (induction src n rule: strncpy.induct) (auto simp: cstr_def)

lemma cstr_copied: "cstr ((strncpy m n @ ys)[n := NUL]) = take n (cstr m)"
proof (cases ys)
  case Nil
  then show ?thesis by (simp add: cstr_strncpy_only length_strncpy list_update_beyond)
next
  case (Cons y ys')
  then show ?thesis
    by (simp add: list_update_append length_strncpy cstr_strncpy)
qed

lemma length_copied:
  "length old = Suc n \<Longrightarrow> length ((strncpy m n @ drop n old)[n := NUL]) = Suc n"
  by (simp add: length_strncpy)

lemma last_copied:
  "length old = Suc n \<Longrightarrow> (strncpy m n @ drop n old)[n := NUL] ! n = NUL"
  by (simp add: length_strncpy)

lemma MSG_BYTES_Suc: "MSG_BYTES = Suc (MSG_BYTES - 1)"
  by (simp add: MSG_BYTES_def)

lemma cache_ok_cacheMessage: "cache_ok st \<Longrightarrow> cache_ok (cacheMessage st m t)"
proof -
  assume ok: "cache_ok st"
  let ?k = "cacheIndex st"
  let ?old = "msg (messageCache st ! ?k)"
  let ?e = "\<lparr> msg = (strncpy m (MSG_BYTES - 1) @ drop (MSG_BYTES - 1) ?old)[MSG_BYTES - 1 := NUL],
              timestamp = t \<rparr>"
  from ok have k: "?k < length (messageCache st)" and all: "list_all entry_ok (messageCache st)"
    and len: "length (messageCache st) = CACHE_SIZE"
    by (simp_all add: cache_ok_def)
  from all k have "entry_ok (messageCache st ! ?k)"
    by (simp add: list_all_length)
  then have old: "length ?old = Suc (MSG_BYTES - 1)"
    using MSG_BYTES_Suc by (simp add: entry_ok_def)
  have "entry_ok ?e"
    unfolding entry_ok_def using length_copied [OF old] last_copied [OF old] MSG_BYTES_Suc
    by simp
  with all k have "list_all entry_ok ((messageCache st)[?k := ?e])"
    by (simp add: list_all_length nth_list_update)
  moreover have "(?k + 1) mod CACHE_SIZE < CACHE_SIZE"
    by (simp add: CACHE_SIZE_def)
  ultimately show ?thesis
    using len by (simp add: cache_ok_def cacheMessage_def Let_def)
qed

lemma cacheMessage_slot:
  "cacheIndex st < length (messageCache st) \<Longrightarrow>
   cstr (msg (messageCache (cacheMessage st m t) ! cacheIndex st)) = take (MSG_BYTES - 1) (cstr m) \<and>
   timestamp (messageCache (cacheMessage st m t) ! cacheIndex st) = t"
  unfolding cacheMessage_def Let_def using cstr_copied [of m "MSG_BYTES - 1"] by simp

lemma cacheMessage_other:
  "i \<noteq> cacheIndex st \<Longrightarrow> messageCache (cacheMessage st m t) ! i = messageCache st ! i"
  unfolding cacheMessage_def Let_def by simp

lemma cacheMessage_index:
  "cacheIndex (cacheMessage st m t) = (cacheIndex st + 1) mod CACHE_SIZE"
  unfolding cacheMessage_def Let_def by simp

lemma cacheMessage_length:
  "length (messageCache (cacheMessage st m t)) = length (messageCache st)"
  unfolding cacheMessage_def Let_def by simp

lemma length_cstr_le: "xs ! n = NUL \<Longrightarrow> length (cstr xs) \<le> n"
proof (rule ccontr)
  assume nul: "xs ! n = NUL" and "\<not> length (cstr xs) \<le> n"
  then have n: "n < length (takeWhile (\<lambda>c. c \<noteq> NUL) xs)"
    by (simp add: cstr_def)
  then have "takeWhile (\<lambda>c. c \<noteq> NUL) xs ! n \<in> set (takeWhile (\<lambda>c. c \<noteq> NUL) xs)"
    by (rule nth_mem)
  then have "takeWhile (\<lambda>c. c \<noteq> NUL) xs ! n \<noteq> NUL"
    by (auto dest: set_takeWhileD)
  with n nul show False
    by (simp add: takeWhile_nth)
qed

lemma entry_ok_length_cstr: "entry_ok e \<Longrightarrow> length (cstr (msg e)) \<le> MSG_BYTES - 1"
  by (simp add: entry_ok_def length_cstr_le)

lemma read_bytes_eq: "read_bytes bytes buf = buf @ take (MSG_BYTES - 1 - length buf) bytes"
proof (induction bytes buf rule: read_bytes.induct)
  case (1 buf)
  show ?case by simp
next
  case (2 b rest buf)
  show ?case
  proof (cases "length buf < MSG_BYTES - 1")
    case True
    then have k: "MSG_BYTES - 1 - length buf = Suc (MSG_BYTES - 1 - length (buf @ [b]))"
      by simp
    show ?thesis
      using True 2 by (simp only: read_bytes.simps k take_Suc_Cons if_True) simp
  next
    case False
    then show ?thesis by simp
  qed
qed

lemma read_packet_eq: "read_packet bytes = take (MSG_BYTES - 1) bytes @ [NUL]"
  by (simp add: read_packet_def read_bytes_eq)

lemma isDuplicate_iff_slots:
  "isDuplicate st m now \<longleftrightarrow>
     (\<exists>i \<in> {0..<CACHE_SIZE}. cstr (msg (messageCache st ! i)) = cstr m \<and>
        now - timestamp (messageCache st ! i) < DEDUPE_WINDOW)"
  by (simp add: isDuplicate_def isDuplicate_loop_iff)

lemma ring_neq: "j < n \<Longrightarrow> n < 10 \<Longrightarrow> (k + j) mod 10 \<noteq> (k + n) mod (10::nat)"
proof
  assume j: "j < n" and n: "n < 10" and eq: "(k + j) mod 10 = (k + n) mod (10::nat)"
  from j have le: "k + j \<le> k + n" by simp
  from eq have "(k + n) mod 10 = (k + j) mod 10" by simp
  then have "10 dvd (k + n) - (k + j)"
    using mod_eq_dvd_iff_nat [OF le, of 10] by blast
  then have "10 dvd n - j" by simp
  moreover from j n have "0 < n - j" and "n - j < 10" by simp_all
  ultimately show False
    using nat_dvd_not_less by blast
qed

lemma ring_onto: "i < 10 \<Longrightarrow> k < 10 \<Longrightarrow> \<exists>j<10. (k + j) mod 10 = (i::nat)"
proof (cases "k \<le> i")
  case True
  assume "i < 10"
  with True have "i - k < 10 \<and> (k + (i - k)) mod 10 = i" by simp
  then show ?thesis by blast
next
  case False
  assume "i < 10" and "k < 10"
  with False have "i + 10 - k < 10 \<and> (k + (i + 10 - k)) mod 10 = i" by simp
  then show ?thesis by blast
qed

lemma cacheMessages_snoc:
  "cacheMessages st (rs @ [r]) = cacheMessage (cacheMessages st rs) (fst r) (snd r)"
  by (simp add: cacheMessages_def)

lemma cacheMessages_ring:
  "cache_ok st \<Longrightarrow> length rs \<le> CACHE_SIZE \<Longrightarrow>
   cache_ok (cacheMessages st rs) \<and>
   cacheIndex (cacheMessages st rs) = (cacheIndex st + length rs) mod CACHE_SIZE \<and>
   (\<forall>j < length rs.
      cstr (msg (messageCache (cacheMessages st rs) ! ((cacheIndex st + j) mod CACHE_SIZE)))
        = take (MSG_BYTES - 1) (cstr (fst (rs ! j))) \<and>
      timestamp (messageCache (cacheMessages st rs) ! ((cacheIndex st + j) mod CACHE_SIZE))
        = snd (rs ! j))"
proof (induction rs rule: rev_induct)
  case Nil
  then show ?case by (simp add: cacheMessages_def cache_ok_def)
next
  case (snoc r rs)
  let ?s = "cacheMessages st rs"
  let ?k = "cacheIndex st"
  from snoc.prems have n: "length rs < CACHE_SIZE" by simp
  with snoc have ok: "cache_ok ?s"
    and idx: "cacheIndex ?s = (?k + length rs) mod CACHE_SIZE"
    and old: "\<And>j. j < length rs \<Longrightarrow>
      cstr (msg (messageCache ?s ! ((?k + j) mod CACHE_SIZE))) = take (MSG_BYTES - 1) (cstr (fst (rs ! j))) \<and>
      timestamp (messageCache ?s ! ((?k + j) mod CACHE_SIZE)) = snd (rs ! j)"
    by simp_all
  from ok have inside: "cacheIndex ?s < length (messageCache ?s)"
    by (simp add: cache_ok_def)
  have new: "cstr (msg (messageCache (cacheMessage ?s (fst r) (snd r)) ! ((?k + length rs) mod CACHE_SIZE)))
               = take (MSG_BYTES - 1) (cstr (fst r)) \<and>
             timestamp (messageCache (cacheMessage ?s (fst r) (snd r)) ! ((?k + length rs) mod CACHE_SIZE))
               = snd r"
    using cacheMessage_slot [OF inside, of "fst r" "snd r"] idx by simp
  have keep: "\<And>j. j < length rs \<Longrightarrow>
      messageCache (cacheMessage ?s (fst r) (snd r)) ! ((?k + j) mod CACHE_SIZE)
        = messageCache ?s ! ((?k + j) mod CACHE_SIZE)"
  proof -
    fix j assume j: "j < length rs"
    from n have n10: "length rs < 10" by (simp add: CACHE_SIZE_def)
    have "(?k + j) mod CACHE_SIZE \<noteq> cacheIndex ?s"
      unfolding idx CACHE_SIZE_def using j n10 by (rule ring_neq)
    then show "messageCache (cacheMessage ?s (fst r) (snd r)) ! ((?k + j) mod CACHE_SIZE)
        = messageCache ?s ! ((?k + j) mod CACHE_SIZE)"
      by (rule cacheMessage_other)
  qed
  have "cacheIndex (cacheMessages st (rs @ [r])) = (?k + length (rs @ [r])) mod CACHE_SIZE"
    by (simp add: cacheMessages_snoc cacheMessage_index idx mod_Suc_eq)
  moreover have "cache_ok (cacheMessages st (rs @ [r]))"
    by (simp add: cacheMessages_snoc cache_ok_cacheMessage ok)
  moreover have "\<forall>j < length (rs @ [r]).
      cstr (msg (messageCache (cacheMessages st (rs @ [r])) ! ((?k + j) mod CACHE_SIZE)))
        = take (MSG_BYTES - 1) (cstr (fst ((rs @ [r]) ! j))) \<and>
      timestamp (messageCache (cacheMessages st (rs @ [r])) ! ((?k + j) mod CACHE_SIZE))
        = snd ((rs @ [r]) ! j)"
  proof (intro allI impI)
    fix j assume "j < length (rs @ [r])"
    then consider "j < length rs" | "j = length rs" by fastforce
    then show "cstr (msg (messageCache (cacheMessages st (rs @ [r])) ! ((?k + j) mod CACHE_SIZE)))
        = take (MSG_BYTES - 1) (cstr (fst ((rs @ [r]) ! j))) \<and>
      timestamp (messageCache (cacheMessages st (rs @ [r])) ! ((?k + j) mod CACHE_SIZE))
        = snd ((rs @ [r]) ! j)"
    proof cases
      case 1
      then show ?thesis using keep [OF 1] old [OF 1]
        by (simp add: cacheMessages_snoc nth_append)
    next
      case 2
      then show ?thesis using new
        by (simp add: cacheMessages_snoc nth_append)
    qed
  qed
  ultimately show ?case by blast
qed

lemma cacheMessages_overwrites_all:
  assumes ok: "cache_ok st" and len: "length rs = CACHE_SIZE" and i: "i < CACHE_SIZE"
  shows "\<exists>r \<in> set rs. cstr (msg (messageCache (cacheMessages st rs) ! i)) = take (MSG_BYTES - 1) (cstr (fst r))"
proof -
  from ok have "cacheIndex st < 10" by (simp add: cache_ok_def CACHE_SIZE_def)
  with i obtain j where j: "j < 10" and ij: "(cacheIndex st + j) mod 10 = i"
    using ring_onto [of i "cacheIndex st"] by (auto simp: CACHE_SIZE_def)
  from j len have jl: "j < length rs" by (simp add: CACHE_SIZE_def)
  from cacheMessages_ring [OF ok] len jl ij
  have "cstr (msg (messageCache (cacheMessages st rs) ! i)) = take (MSG_BYTES - 1) (cstr (fst (rs ! j)))"
    by (auto simp: CACHE_SIZE_def)
  with jl show ?thesis by (metis nth_mem)
qed

lemma isDuplicate_after_cacheMessage:
  assumes ok: "cache_ok st" and short: "length (cstr m) \<le> MSG_BYTES - 1"
    and win: "now - t < DEDUPE_WINDOW"
  shows "isDuplicate (cacheMessage st m t) m now"
proof -
  from ok have k: "cacheIndex st < length (messageCache st)" and k10: "cacheIndex st < CACHE_SIZE"
    by (simp_all add: cache_ok_def)
  from cacheMessage_slot [OF k, of m t] short win
  have "cstr (msg (messageCache (cacheMessage st m t) ! cacheIndex st)) = cstr m \<and>
        now - timestamp (messageCache (cacheMessage st m t) ! cacheIndex st) < DEDUPE_WINDOW"
    by simp
  with k10 show ?thesis
    unfolding isDuplicate_iff_slots by (metis atLeastLessThan_iff le0)
qed

lemma not_isDuplicate_after_ring:
  assumes ok: "cache_ok st" and len: "length rs = CACHE_SIZE"
    and other: "\<forall>r \<in> set rs. take (MSG_BYTES - 1) (cstr (fst r)) \<noteq> cstr m"
  shows "\<not> isDuplicate (cacheMessages st rs) m now"
proof
  assume "isDuplicate (cacheMessages st rs) m now"
  then obtain i where i: "i < CACHE_SIZE"
    and eq: "cstr (msg (messageCache (cacheMessages st rs) ! i)) = cstr m"
    by (auto simp: isDuplicate_iff_slots)
  from cacheMessages_overwrites_all [OF ok len i] eq other show False
    by auto
qed

text \<open>
  Claim C2. \<open>isDuplicate\<close> is true exactly when one of the ten slots holds a string
  equal to the text with \<open>now - timestamp < 5000\<close>, the difference taken in the 32-bit
  unsigned arithmetic of \<^verbatim>\<open>millis()\<close>. Hence a text of at most 63 bytes
  recorded at \<open>t\<close> is a duplicate at every \<open>now\<close> with \<open>now - t < 5000\<close>; the
  answer is false when every slot that holds the text is outside the window; and it is
  false, whatever the time, once ten texts whose stored form differs from it have been
  recorded after it, since they fill all ten slots in ring order
  (\<open>cacheMessages_ring\<close>).
\<close>

theorem isDuplicate_window_and_ring:
  "(isDuplicate st m now \<longleftrightarrow>
      (\<exists>i \<in> {0..<CACHE_SIZE}. cstr (msg (messageCache st ! i)) = cstr m \<and>
         now - timestamp (messageCache st ! i) < 5000)) \<and>
   (cache_ok st \<and> length (cstr m) \<le> 63 \<and> now - t < 5000 \<longrightarrow>
      isDuplicate (cacheMessage st m t) m now) \<and>
   ((\<forall>i \<in> {0..<CACHE_SIZE}. cstr (msg (messageCache st ! i)) = cstr m \<longrightarrow>
         5000 \<le> now - timestamp (messageCache st ! i)) \<longrightarrow>
      \<not> isDuplicate st m now) \<and>
   (cache_ok st \<and> length rs = CACHE_SIZE \<and> (\<forall>r \<in> set rs. take 63 (cstr (fst r)) \<noteq> cstr m) \<longrightarrow>
      \<not> isDuplicate (cacheMessages (cacheMessage st m t) rs) m now)"
proof (intro conjI impI)
  show "isDuplicate st m now \<longleftrightarrow>
      (\<exists>i \<in> {0..<CACHE_SIZE}. cstr (msg (messageCache st ! i)) = cstr m \<and>
         now - timestamp (messageCache st ! i) < 5000)"
    by (simp add: isDuplicate_iff_slots DEDUPE_WINDOW_def)
next
  assume "cache_ok st \<and> length (cstr m) \<le> 63 \<and> now - t < 5000"
  then show "isDuplicate (cacheMessage st m t) m now"
    using isDuplicate_after_cacheMessage [of st m now t]
    by (simp add: MSG_BYTES_def DEDUPE_WINDOW_def)
next
  assume "\<forall>i \<in> {0..<CACHE_SIZE}. cstr (msg (messageCache st ! i)) = cstr m \<longrightarrow>
         5000 \<le> now - timestamp (messageCache st ! i)"
  then show "\<not> isDuplicate st m now"
    by (auto simp: isDuplicate_iff_slots DEDUPE_WINDOW_def)
next
  assume a: "cache_ok st \<and> length rs = CACHE_SIZE \<and> (\<forall>r \<in> set rs. take 63 (cstr (fst r)) \<noteq> cstr m)"
  then have "cache_ok (cacheMessage st m t)"
    by (simp add: cache_ok_cacheMessage)
  with a show "\<not> isDuplicate (cacheMessages (cacheMessage st m t) rs) m now"
    using not_isDuplicate_after_ring [of "cacheMessage st m t" rs m now]
    by (simp add: MSG_BYTES_def)
qed

lemma cache_ok_relay_init: "cache_ok relay_init"
  by (simp add: cache_ok_def relay_init_def CACHE_SIZE_def entry_ok_def MSG_BYTES_def list_all_length)

section \<open>The relay loop\<close>

lemma ledTimeouts_cache [simp]:
  "messageCache (ledTimeouts st now) = messageCache st"
  "cacheIndex (ledTimeouts st now) = cacheIndex st"
  by (simp_all add: ledTimeouts_def Let_def)

lemma blinkRxLed_cache [simp]:
  "messageCache (blinkRxLed st t) = messageCache st"
  "cacheIndex (blinkRxLed st t) = cacheIndex st"
  by (simp_all add: blinkRxLed_def)

lemma blinkTxLed_cache [simp]:
  "messageCache (blinkTxLed st t) = messageCache st"
  "cacheIndex (blinkTxLed st t) = cacheIndex st"
  by (simp_all add: blinkTxLed_def)

lemma displayStatistics_cache [simp]:
  "messageCache (displayStatistics st now) = messageCache st"
  "cacheIndex (displayStatistics st now) = cacheIndex st"
  by (simp_all add: displayStatistics_def)

lemma isDuplicate_cache_cong:
  "messageCache a = messageCache b \<Longrightarrow> isDuplicate a m t = isDuplicate b m t"
  by (simp add: isDuplicate_def)

lemma cache_ok_cong:
  "messageCache a = messageCache b \<Longrightarrow> cacheIndex a = cacheIndex b \<Longrightarrow> cache_ok a = cache_ok b"
  by (simp add: cache_ok_def)

lemma cacheMessage_cache_cong:
  "messageCache a = messageCache b \<Longrightarrow> cacheIndex a = cacheIndex b \<Longrightarrow>
   messageCache (cacheMessage a m t) = messageCache (cacheMessage b m t) \<and>
   cacheIndex (cacheMessage a m t) = cacheIndex (cacheMessage b m t)"
  by (simp add: cacheMessage_def Let_def)

lemma forwardMessage_send_cache:
  "messageCache (fst (forwardMessage_send fp st m d thr env)) = messageCache st \<and>
   cacheIndex (fst (forwardMessage_send fp st m d thr env)) = cacheIndex st"
  by (simp add: forwardMessage_send_def Let_def)

lemma keeps_cache_forwardMessage: "keeps_cache (forwardMessage fp)"
  by (simp add: keeps_cache_def forwardMessage_def Let_def forwardMessage_send_cache case_prod_beta)

lemma keeps_cache_forwardMessage_relay: "keeps_cache forwardMessage_relay"
  by (simp add: keeps_cache_def forwardMessage_relay_def Let_def)

lemma forward_start_cache:
  "messageCache (forward_start st env) =
     messageCache (cacheMessage st (read_packet (packet env)) (t_cacheMessage env)) \<and>
   cacheIndex (forward_start st env) =
     cacheIndex (cacheMessage st (read_packet (packet env)) (t_cacheMessage env))"
  unfolding forward_start_def Let_def
  by (rule cacheMessage_cache_cong) simp_all

lemma relay_loop_forwarding:
  assumes "packet env \<noteq> []" and "isValidMessage (read_packet (packet env))"
    and "\<not> isDuplicate st (read_packet (packet env)) (t_isDuplicate env)"
  shows "relay_loop fwd st env =
           (displayStatistics (fst (fwd (forward_start st env) (read_packet (packet env)) env)) (t_loop env),
            snd (fwd (forward_start st env) (read_packet (packet env)) env))"
proof -
  let ?st1 = "ledTimeouts st (t_loop env)"
  let ?st2 = "blinkRxLed (?st1\<lparr> messagesReceived := messagesReceived ?st1 + 1 \<rparr>) (t_blinkRx env)"
  have "isDuplicate ?st2 (read_packet (packet env)) (t_isDuplicate env)
          = isDuplicate st (read_packet (packet env)) (t_isDuplicate env)"
    by (rule isDuplicate_cache_cong) simp
  with assms show ?thesis
    by (simp add: relay_loop_def forward_start_def Let_def case_prod_beta)
qed

lemma relay_loop_cache:
  assumes "keeps_cache fwd"
  shows "(messageCache (fst (relay_loop fwd st env)) = messageCache st \<and>
          cacheIndex (fst (relay_loop fwd st env)) = cacheIndex st) \<or>
         (messageCache (fst (relay_loop fwd st env)) = messageCache (forward_start st env) \<and>
          cacheIndex (fst (relay_loop fwd st env)) = cacheIndex (forward_start st env))"
  using assms
  by (simp add: relay_loop_def forward_start_def Let_def keeps_cache_def case_prod_beta)

lemma length_cstr_read_packet: "length (cstr (read_packet p)) \<le> MSG_BYTES - 1"
proof -
  have "read_packet p ! length (take (MSG_BYTES - 1) p) = NUL"
    unfolding read_packet_eq by (simp only: nth_append_length)
  then have "length (cstr (read_packet p)) \<le> length (take (MSG_BYTES - 1) p)"
    by (rule length_cstr_le)
  then show ?thesis by simp
qed

lemma isDuplicate_forward_start:
  assumes "cache_ok st" and "t - t_cacheMessage env < DEDUPE_WINDOW"
  shows "isDuplicate (forward_start st env) (read_packet (packet env)) t"
proof -
  have "isDuplicate (cacheMessage st (read_packet (packet env)) (t_cacheMessage env))
          (read_packet (packet env)) t"
    using assms(1) length_cstr_read_packet assms(2) by (rule isDuplicate_after_cacheMessage)
  then show ?thesis
    using isDuplicate_cache_cong forward_start_cache by metis
qed

lemma cache_ok_forward_start: "cache_ok st \<Longrightarrow> cache_ok (forward_start st env)"
  using cache_ok_cong [of "forward_start st env"
      "cacheMessage st (read_packet (packet env)) (t_cacheMessage env)"]
    forward_start_cache [of st env] cache_ok_cacheMessage [of st]
  by simp

lemma cache_ok_relay_loop:
  assumes "keeps_cache fwd" and "cache_ok st"
  shows "cache_ok (fst (relay_loop fwd st env))"
  using relay_loop_cache [OF assms(1), of st env] assms(2) cache_ok_forward_start [of st env]
    cache_ok_cong [of "fst (relay_loop fwd st env)"]
  by metis

lemma cstr_fire_payload: "cstr (read_packet fire_payload) = fire_payload"
  by (simp add: read_packet_eq fire_payload_def cstr_def NUL_def MSG_BYTES_def)

lemma valid_fire_payload: "isValidMessage (read_packet fire_payload)"
  by (simp add: isValidMessage_iff cstr_fire_payload) (simp add: fire_payload_def)

lemma fresh_fire_payload: "\<not> isDuplicate relay_init (read_packet fire_payload) t"
  by (simp add: isDuplicate_iff_slots cstr_fire_payload)
     (simp add: relay_init_def fire_payload_def cstr_def NUL_def MSG_BYTES_def CACHE_SIZE_def)

text \<open>
  Claim C5. For every distance and threshold, the hybrid relay makes one send attempt:
  over ESP-NOW exactly when the comparison \<^verbatim>\<open>dist < threshold\<close> holds, over LoRa
  otherwise. A distance equal to the threshold goes over LoRa, the comparison of a float
  with itself being false. \<open>forwardMessage\<close> applies this to the distance it computes
  from the coordinates in the message and to \<open>DISTANCE_THRESHOLD_METERS\<close>.
\<close>

theorem transport_by_distance:
  "transports (snd (forwardMessage_send fp st m d thr env))
     = [if flt fp d thr then SHORT_RANGE else LONG_RANGE] \<and>
   (\<not> flt fp thr thr \<longrightarrow>
      transports (snd (forwardMessage_send fp st m thr thr env)) = [LONG_RANGE]) \<and>
   transports (snd (forwardMessage fp st m env))
     = [if flt fp (calculateDistance fp (fst (parseCoordinates fp m)) (snd (parseCoordinates fp m))
                     (RECEIVER_LAT fp) (RECEIVER_LNG fp))
               (DISTANCE_THRESHOLD_METERS fp)
        then SHORT_RANGE else LONG_RANGE]"
  by (simp add: forwardMessage_def forwardMessage_send_def Let_def case_prod_beta)

theorem transport_by_distance_witness:
  "\<not> flt ideal_fpu 50 50 \<and>
   transports (snd (forwardMessage_send ideal_fpu relay_init fire_payload 50 50 env0)) = [LONG_RANGE] \<and>
   transports (snd (forwardMessage_send ideal_fpu relay_init fire_payload (499 / 10) 50 env0)) = [SHORT_RANGE] \<and>
   transports (snd (forwardMessage_send ideal_fpu relay_init fire_payload (501 / 10) 50 env0)) = [LONG_RANGE]"
  using transport_by_distance [of ideal_fpu relay_init fire_payload 50 50 env0]
    transport_by_distance [of ideal_fpu relay_init fire_payload "499 / 10" 50 env0]
    transport_by_distance [of ideal_fpu relay_init fire_payload "501 / 10" 50 env0]
  by (simp add: ideal_fpu_def)

text \<open>
  Claim C9. When the send primitive reports failure, \<open>forwardMessage\<close> of either
  relay returns the state it was given, and what it did is the one send attempt followed
  by the one line that reports the failure (in the plain relay the random delay comes
  before the attempt, as on success). Each forwarded-message counter grows by one exactly
  when its transport's send succeeds, and every call makes exactly one send attempt.
\<close>

theorem send_failure_only_logs:
  "(flt fp d thr \<and> esp_now_send_result env \<noteq> 0 \<longrightarrow>
      forwardMessage_send fp st m d thr env
        = (st, [EspNowSend (strncpy m 63 @ [NUL]) (esp_now_send_result env),
                Serial EspNowForwardFailed])) \<and>
   (\<not> flt fp d thr \<and> endPacket_result env = 0 \<longrightarrow>
      forwardMessage_send fp st m d thr env
        = (st, [LoRaSend (cstr m) 0, Serial LoRaForwardFailed])) \<and>
   (endPacket_result env = 0 \<longrightarrow>
      forwardMessage_relay st m env
        = (st, [Delay (random_50_150 env), LoRaSend (cstr m) 0, Serial ForwardFailed])) \<and>
   messagesForwardedEspNow (fst (forwardMessage_send fp st m d thr env))
     = messagesForwardedEspNow st + (if flt fp d thr \<and> esp_now_send_result env = 0 then 1 else 0) \<and>
   messagesForwardedLoRa (fst (forwardMessage_send fp st m d thr env))
     = messagesForwardedLoRa st + (if \<not> flt fp d thr \<and> endPacket_result env \<noteq> 0 then 1 else 0) \<and>
   messagesForwarded (fst (forwardMessage_relay st m env))
     = messagesForwarded st + (if endPacket_result env \<noteq> 0 then 1 else 0) \<and>
   length (transports (snd (forwardMessage_send fp st m d thr env))) = 1 \<and>
   length (transports (snd (forwardMessage_relay st m env))) = 1"
  by (simp add: forwardMessage_send_def forwardMessage_relay_def Let_def blinkTxLed_def MSG_BYTES_def)

theorem send_failure_only_logs_witness:
  "forwardMessage_send ideal_fpu relay_init fire_payload 10 50 (env0\<lparr>esp_now_send_result := 1\<rparr>)
     = (relay_init, [EspNowSend (strncpy fire_payload 63 @ [NUL]) 1, Serial EspNowForwardFailed]) \<and>
   forwardMessage_send ideal_fpu relay_init fire_payload 80 50 (env0\<lparr>endPacket_result := 0\<rparr>)
     = (relay_init, [LoRaSend fire_payload 0, Serial LoRaForwardFailed]) \<and>
   forwardMessage_relay relay_init fire_payload (env0\<lparr>endPacket_result := 0\<rparr>)
     = (relay_init, [Delay 97, LoRaSend fire_payload 0, Serial ForwardFailed])"
  using send_failure_only_logs [of ideal_fpu 10 50 "env0\<lparr>esp_now_send_result := 1\<rparr>" relay_init fire_payload]
    send_failure_only_logs [of ideal_fpu 80 50 "env0\<lparr>endPacket_result := 0\<rparr>" relay_init fire_payload]
  by (simp add: ideal_fpu_def env0_def) (simp add: fire_payload_def cstr_def NUL_def)

lemma isDuplicate_after_forwarding:
  assumes "packet env \<noteq> []" and "isValidMessage (read_packet (packet env))"
    and "\<not> isDuplicate st (read_packet (packet env)) (t_isDuplicate env)"
    and "cache_ok st" and "keeps_cache f" and "t - t_cacheMessage env < DEDUPE_WINDOW"
  shows "isDuplicate (fst (relay_loop f st env)) (read_packet (packet env)) t"
proof -
  have "messageCache (fst (relay_loop f st env)) = messageCache (forward_start st env)"
    using assms(5) by (simp add: relay_loop_forwarding [OF assms(1-3)] keeps_cache_def)
  moreover have "isDuplicate (forward_start st env) (read_packet (packet env)) t"
    using assms(4,6) by (rule isDuplicate_forward_start)
  ultimately show ?thesis
    using isDuplicate_cache_cong by metis
qed

text \<open>
  Claim C8. For a packet that is valid and not a duplicate, whatever the forwarding
  function: \<^verbatim>\<open>loop()\<close> calls it in the state \<open>forward_start\<close>, which
  \<open>cacheMessage\<close> has already returned, and everything the pass sends or waits for
  comes from that call; in the plain relay the first effect is the random delay. In
  \<open>forward_start\<close>, and in the state after the pass of either relay, the text is a
  duplicate at every time \<open>t\<close> with \<open>t - t_cacheMessage < 5000\<close>.
\<close>

theorem cache_before_forward:
  "packet env \<noteq> [] \<and> isValidMessage (read_packet (packet env)) \<and>
   \<not> isDuplicate st (read_packet (packet env)) (t_isDuplicate env) \<and> cache_ok st \<longrightarrow>
     relay_loop fwd st env
       = (displayStatistics (fst (fwd (forward_start st env) (read_packet (packet env)) env)) (t_loop env),
          snd (fwd (forward_start st env) (read_packet (packet env)) env)) \<and>
     snd (loop_hybrid fp st env)
       = snd (forwardMessage fp (forward_start st env) (read_packet (packet env)) env) \<and>
     snd (loop_relay st env)
       = snd (forwardMessage_relay (forward_start st env) (read_packet (packet env)) env) \<and>
     hd (snd (loop_relay st env)) = Delay (random_50_150 env) \<and>
     (\<forall>t. t - t_cacheMessage env < DEDUPE_WINDOW \<longrightarrow>
        isDuplicate (forward_start st env) (read_packet (packet env)) t \<and>
        isDuplicate (fst (loop_hybrid fp st env)) (read_packet (packet env)) t \<and>
        isDuplicate (fst (loop_relay st env)) (read_packet (packet env)) t)"
proof (intro impI)
  let ?m = "read_packet (packet env)"
  assume a: "packet env \<noteq> [] \<and> isValidMessage ?m \<and>
    \<not> isDuplicate st ?m (t_isDuplicate env) \<and> cache_ok st"
  then have loop: "\<And>f. relay_loop f st env
       = (displayStatistics (fst (f (forward_start st env) ?m env)) (t_loop env),
          snd (f (forward_start st env) ?m env))"
    by (simp add: relay_loop_forwarding)
  have dup: "\<And>t. t - t_cacheMessage env < DEDUPE_WINDOW \<Longrightarrow> isDuplicate (forward_start st env) ?m t"
    using a by (simp add: isDuplicate_forward_start)
  have dup_after: "\<And>f t. keeps_cache f \<Longrightarrow> t - t_cacheMessage env < DEDUPE_WINDOW \<Longrightarrow>
      isDuplicate (fst (relay_loop f st env)) ?m t"
    using a by (simp add: isDuplicate_after_forwarding)
  have c1: "relay_loop fwd st env
       = (displayStatistics (fst (fwd (forward_start st env) ?m env)) (t_loop env),
          snd (fwd (forward_start st env) ?m env))"
    by (rule loop)
  have c2: "snd (loop_hybrid fp st env) = snd (forwardMessage fp (forward_start st env) ?m env)"
    by (simp add: loop_hybrid_def loop)
  have c3: "snd (loop_relay st env) = snd (forwardMessage_relay (forward_start st env) ?m env)"
    by (simp add: loop_relay_def loop)
  have c4: "hd (snd (loop_relay st env)) = Delay (random_50_150 env)"
    by (simp add: c3 forwardMessage_relay_def Let_def)
  have c5: "\<forall>t. t - t_cacheMessage env < DEDUPE_WINDOW \<longrightarrow>
        isDuplicate (forward_start st env) ?m t \<and>
        isDuplicate (fst (loop_hybrid fp st env)) ?m t \<and>
        isDuplicate (fst (loop_relay st env)) ?m t"
    unfolding loop_hybrid_def loop_relay_def
    using dup dup_after [OF keeps_cache_forwardMessage] dup_after [OF keeps_cache_forwardMessage_relay]
    by blast
  from c1 c2 c3 c4 c5 show "relay_loop fwd st env
       = (displayStatistics (fst (fwd (forward_start st env) ?m env)) (t_loop env),
          snd (fwd (forward_start st env) ?m env)) \<and>
     snd (loop_hybrid fp st env) = snd (forwardMessage fp (forward_start st env) ?m env) \<and>
     snd (loop_relay st env) = snd (forwardMessage_relay (forward_start st env) ?m env) \<and>
     hd (snd (loop_relay st env)) = Delay (random_50_150 env) \<and>
     (\<forall>t. t - t_cacheMessage env < DEDUPE_WINDOW \<longrightarrow>
        isDuplicate (forward_start st env) ?m t \<and>
        isDuplicate (fst (loop_hybrid fp st env)) ?m t \<and>
        isDuplicate (fst (loop_relay st env)) ?m t)"
    by (intro conjI)
qed

theorem cache_before_forward_witness:
  "packet env0 \<noteq> [] \<and> isValidMessage (read_packet (packet env0)) \<and>
   \<not> isDuplicate relay_init (read_packet (packet env0)) (t_isDuplicate env0) \<and> cache_ok relay_init \<and>
   (1150 :: millis) - t_cacheMessage env0 < DEDUPE_WINDOW \<and>
   hd (snd (loop_relay relay_init env0)) = Delay 97 \<and>
   isDuplicate (forward_start relay_init env0) (read_packet (packet env0)) 1150 \<and>
   isDuplicate (fst (loop_relay relay_init env0)) (read_packet (packet env0)) 1150 \<and>
   isDuplicate (fst (loop_hybrid ideal_fpu relay_init env0)) (read_packet (packet env0)) 1150"
proof -
  have h: "packet env0 \<noteq> [] \<and> isValidMessage (read_packet (packet env0)) \<and>
      \<not> isDuplicate relay_init (read_packet (packet env0)) (t_isDuplicate env0) \<and> cache_ok relay_init"
    using valid_fire_payload fresh_fire_payload cache_ok_relay_init
    by (simp add: env0_def) (simp add: fire_payload_def)
  have w: "(1150 :: millis) - t_cacheMessage env0 < DEDUPE_WINDOW"
    by (simp add: env0_def DEDUPE_WINDOW_def)
  have r: "random_50_150 env0 = 97"
    by (simp add: env0_def)
  from cache_before_forward [of env0 relay_init forwardMessage_relay ideal_fpu] h
  have "hd (snd (loop_relay relay_init env0)) = Delay (random_50_150 env0)"
    and "\<forall>t. t - t_cacheMessage env0 < DEDUPE_WINDOW \<longrightarrow>
        isDuplicate (forward_start relay_init env0) (read_packet (packet env0)) t \<and>
        isDuplicate (fst (loop_hybrid ideal_fpu relay_init env0)) (read_packet (packet env0)) t \<and>
        isDuplicate (fst (loop_relay relay_init env0)) (read_packet (packet env0)) t"
    by blast+
  with h w r show ?thesis by simp
qed

lemma drops_invalid:
  "packet env \<noteq> [] \<Longrightarrow> \<not> isValidMessage (read_packet (packet env)) \<Longrightarrow>
   snd (relay_loop fwd st env) = [Serial InvalidFormat] \<and>
   messageCache (fst (relay_loop fwd st env)) = messageCache st \<and>
   cacheIndex (fst (relay_loop fwd st env)) = cacheIndex st"
  by (simp add: relay_loop_def Let_def)

lemma drops_duplicate:
  "packet env \<noteq> [] \<Longrightarrow> isValidMessage (read_packet (packet env)) \<Longrightarrow>
   isDuplicate st (read_packet (packet env)) (t_isDuplicate env) \<Longrightarrow>
   snd (relay_loop fwd st env) = [Serial DuplicateDropped]"
proof -
  let ?st1 = "ledTimeouts st (t_loop env)"
  let ?st2 = "blinkRxLed (?st1\<lparr> messagesReceived := messagesReceived ?st1 + 1 \<rparr>) (t_blinkRx env)"
  assume a: "packet env \<noteq> []" "isValidMessage (read_packet (packet env))"
    "isDuplicate st (read_packet (packet env)) (t_isDuplicate env)"
  have "isDuplicate ?st2 (read_packet (packet env)) (t_isDuplicate env)
          = isDuplicate st (read_packet (packet env)) (t_isDuplicate env)"
    by (rule isDuplicate_cache_cong) simp
  with a show ?thesis
    by (simp add: relay_loop_def Let_def)
qed

lemma quake_payload_invalid: "\<not> isValidMessage (read_packet quake_payload)"
  by (simp add: isValidMessage_iff read_packet_eq MSG_BYTES_def)
     (simp add: quake_payload_def cstr_def NUL_def)

lemma sendLoRaAlert_QUAKE_invalid:
  "list_all (\<lambda>p. \<not> isValidMessage (read_packet p)) (sendLoRaAlert fp st smp ''QUAKE'' x)"
  by (simp add: sendLoRaAlert_def Let_def isValidMessage_iff read_packet_eq MSG_BYTES_def)
     (simp add: cstr_def NUL_def)

lemma parseFields_type: "type (parseFields fp ty m) = ty"
  by (simp add: parseFields_def Let_def split: option.split)

lemma parseMessage_type:
  "type (parseMessage fp m) =
     (if take 4 (cstr m) = ''FIRE'' then FIRE
      else if take 5 (cstr m) = ''QUAKE'' then QUAKE else NONE)"
proof -
  have a: "strncmp m ''FIRE'' 4 = 0 \<longleftrightarrow> take 4 (cstr m) = ''FIRE''"
    by (rule strncmp_0_iff) (simp_all add: NUL_def)
  have b: "strncmp m ''QUAKE'' 5 = 0 \<longleftrightarrow> take 5 (cstr m) = ''QUAKE''"
    by (rule strncmp_0_iff) (simp_all add: NUL_def)
  show ?thesis
    by (simp add: parseMessage_def a b parseFields_type)
qed

text \<open>
  Claim C1 (the code departs from it). The claim: the relay drops a payload exactly when
  it does not begin with FIRE or QUAKE, and every payload that begins with QUAKE passes
  validation. \<open>isValidMessage\<close> accepts the prefixes FIRE and EARTHQUAKE instead
  (\<open>isValidMessage_iff\<close>). At the payload \<open>quake_payload\<close>, which is what the
  transmitter sends for a quake: \<open>isValidMessage\<close> is false; both relays print the one
  line for an invalid format, leave the cache as it was and send nothing; no packet that
  \<open>sendLoRaAlert\<close> builds for the kind QUAKE is valid for the relay, whatever the
  float formatting; and the receiver's \<open>parseMessage\<close> decodes the same payload as
  QUAKE.
\<close>

theorem relay_rejects_QUAKE:
  "\<not> isValidMessage (read_packet quake_payload) \<and>
   snd (loop_hybrid fp st (env\<lparr>packet := quake_payload\<rparr>)) = [Serial InvalidFormat] \<and>
   messageCache (fst (loop_hybrid fp st (env\<lparr>packet := quake_payload\<rparr>))) = messageCache st \<and>
   snd (loop_relay st (env\<lparr>packet := quake_payload\<rparr>)) = [Serial InvalidFormat] \<and>
   messageCache (fst (loop_relay st (env\<lparr>packet := quake_payload\<rparr>))) = messageCache st \<and>
   list_all (\<lambda>p. \<not> isValidMessage (read_packet p)) (sendLoRaAlert fp' tx smp ''QUAKE'' x) \<and>
   type (parseMessage fp quake_payload) = QUAKE"
proof -
  have ne: "packet (env\<lparr>packet := quake_payload\<rparr>) \<noteq> []"
    by (simp add: quake_payload_def)
  have inv: "\<not> isValidMessage (read_packet (packet (env\<lparr>packet := quake_payload\<rparr>)))"
    using quake_payload_invalid by simp
  have "type (parseMessage fp quake_payload) = QUAKE"
    by (simp add: parseMessage_type) (simp add: quake_payload_def cstr_def NUL_def)
  then show ?thesis
    using drops_invalid [OF ne inv] quake_payload_invalid sendLoRaAlert_QUAKE_invalid
    by (simp add: loop_hybrid_def loop_relay_def)
qed

theorem isDuplicate_window_and_ring_witness:
  "cache_ok relay_init \<and> length (cstr fire_payload) \<le> 63 \<and> (3000 :: millis) - 1000 < 5000 \<and>
   isDuplicate (cacheMessage relay_init fire_payload 1000) fire_payload 3000 \<and>
   \<not> isDuplicate (cacheMessage relay_init fire_payload 1000) fire_payload 7000 \<and>
   length ten_others = CACHE_SIZE \<and>
   list_all (\<lambda>r. take 63 (cstr (fst r)) \<noteq> cstr fire_payload) ten_others \<and>
   \<not> isDuplicate (cacheMessages (cacheMessage relay_init fire_payload 1000) ten_others) fire_payload 3000"
proof -
  have h1: "cache_ok relay_init \<and> length (cstr fire_payload) \<le> 63 \<and> (3000 :: millis) - 1000 < 5000"
    using cache_ok_relay_init by (simp add: fire_payload_def cstr_def NUL_def)
  have h2: "\<forall>i \<in> {0..<CACHE_SIZE}.
       cstr (msg (messageCache (cacheMessage relay_init fire_payload 1000) ! i)) = cstr fire_payload \<longrightarrow>
       5000 \<le> (7000 :: millis) - timestamp (messageCache (cacheMessage relay_init fire_payload 1000) ! i)"
    by (simp add: cacheMessage_def relay_init_def CACHE_SIZE_def MSG_BYTES_def Let_def
          nth_list_update fire_payload_def cstr_def NUL_def)
  have h3: "cache_ok relay_init \<and> length ten_others = CACHE_SIZE \<and>
      (\<forall>r \<in> set ten_others. take 63 (cstr (fst r)) \<noteq> cstr fire_payload)"
    using cache_ok_relay_init
    by (simp add: ten_others_def CACHE_SIZE_def fire_payload_def cstr_def NUL_def)
  from isDuplicate_window_and_ring [of "cacheMessage relay_init fire_payload 1000" fire_payload 7000] h2
  have n7: "\<not> isDuplicate (cacheMessage relay_init fire_payload 1000) fire_payload 7000"
    by blast
  from isDuplicate_window_and_ring [of relay_init fire_payload 3000 1000 ten_others] h1 h3
  have "isDuplicate (cacheMessage relay_init fire_payload 1000) fire_payload 3000"
    and "\<not> isDuplicate (cacheMessages (cacheMessage relay_init fire_payload 1000) ten_others) fire_payload 3000"
    by blast+
  with h1 h3 n7 show ?thesis by (simp add: list_all_iff)
qed

text \<open>
  Claim C10. Every pass of either relay keeps the shape of the cache: ten slots of 64
  bytes whose last byte is NUL, so that every cached string has at most 63 bytes; the
  state after \<^verbatim>\<open>setup()\<close> has it. The packet read leaves the first 63 bytes of the
  packet and a NUL in the buffer, so two packets that agree on their first 63 bytes take
  the relay through the same pass; and when the first of them has been forwarded, the
  second is dropped as a duplicate at any time inside the window.
\<close>

theorem cache_entries_at_most_63_bytes:
  "(cache_ok st \<longrightarrow>
      cache_ok (fst (loop_hybrid fp st env)) \<and> cache_ok (fst (loop_relay st env)) \<and>
      (\<forall>e \<in> set (messageCache st).
         length (msg e) = 64 \<and> msg e ! 63 = NUL \<and> length (cstr (msg e)) \<le> 63)) \<and>
   cache_ok relay_init \<and>
   read_packet p = take 63 p @ [NUL] \<and>
   (take 63 p = take 63 q \<longrightarrow>
      loop_hybrid fp st (env\<lparr>packet := p\<rparr>) = loop_hybrid fp st (env\<lparr>packet := q\<rparr>) \<and>
      loop_relay st (env\<lparr>packet := p\<rparr>) = loop_relay st (env\<lparr>packet := q\<rparr>)) \<and>
   (cache_ok st \<and> take 63 (packet env) = take 63 (packet env') \<and> packet env \<noteq> [] \<and>
    isValidMessage (read_packet (packet env)) \<and>
    \<not> isDuplicate st (read_packet (packet env)) (t_isDuplicate env) \<and>
    t_isDuplicate env' - t_cacheMessage env < DEDUPE_WINDOW \<longrightarrow>
      snd (loop_hybrid fp (fst (loop_hybrid fp st env)) env') = [Serial DuplicateDropped] \<and>
      snd (loop_relay (fst (loop_relay st env)) env') = [Serial DuplicateDropped])"
proof (intro conjI impI)
  assume "cache_ok st"
  then show "cache_ok (fst (loop_hybrid fp st env))"
    unfolding loop_hybrid_def using keeps_cache_forwardMessage by (rule cache_ok_relay_loop [rotated])
next
  assume "cache_ok st"
  then show "cache_ok (fst (loop_relay st env))"
    unfolding loop_relay_def using keeps_cache_forwardMessage_relay by (rule cache_ok_relay_loop [rotated])
next
  assume "cache_ok st"
  then have "\<forall>e \<in> set (messageCache st). entry_ok e"
    by (simp add: cache_ok_def list_all_iff)
  then show "\<forall>e \<in> set (messageCache st).
         length (msg e) = 64 \<and> msg e ! 63 = NUL \<and> length (cstr (msg e)) \<le> 63"
    using entry_ok_length_cstr by (auto simp: entry_ok_def MSG_BYTES_def)
next
  show "cache_ok relay_init" by (rule cache_ok_relay_init)
next
  show "read_packet p = take 63 p @ [NUL]"
    by (simp add: read_packet_eq MSG_BYTES_def)
next
  assume eq: "take 63 p = take 63 q"
  then have "(p = []) = (q = [])" by (metis take_eq_Nil zero_neq_numeral)
  moreover from eq have "read_packet p = read_packet q"
    by (simp add: read_packet_eq MSG_BYTES_def)
  ultimately have "relay_loop f st (env\<lparr>packet := p\<rparr>) = relay_loop f st (env\<lparr>packet := q\<rparr>)"
    if "\<And>s m. f s m (env\<lparr>packet := p\<rparr>) = f s m (env\<lparr>packet := q\<rparr>)" for f
    using that by (simp add: relay_loop_def Let_def)
  moreover have "forwardMessage fp s m (env\<lparr>packet := p\<rparr>) = forwardMessage fp s m (env\<lparr>packet := q\<rparr>)" for s m
    by (simp add: forwardMessage_def forwardMessage_send_def Let_def case_prod_beta)
  moreover have "forwardMessage_relay s m (env\<lparr>packet := p\<rparr>) = forwardMessage_relay s m (env\<lparr>packet := q\<rparr>)" for s m
    by (simp add: forwardMessage_relay_def Let_def)
  ultimately show "loop_hybrid fp st (env\<lparr>packet := p\<rparr>) = loop_hybrid fp st (env\<lparr>packet := q\<rparr>)"
    and "loop_relay st (env\<lparr>packet := p\<rparr>) = loop_relay st (env\<lparr>packet := q\<rparr>)"
    by (simp_all add: loop_hybrid_def loop_relay_def)
next
  assume a: "cache_ok st \<and> take 63 (packet env) = take 63 (packet env') \<and> packet env \<noteq> [] \<and>
    isValidMessage (read_packet (packet env)) \<and>
    \<not> isDuplicate st (read_packet (packet env)) (t_isDuplicate env) \<and>
    t_isDuplicate env' - t_cacheMessage env < DEDUPE_WINDOW"
  then have same: "read_packet (packet env') = read_packet (packet env)"
    by (simp add: read_packet_eq MSG_BYTES_def)
  from a have ne: "packet env' \<noteq> []" by (metis take_eq_Nil zero_neq_numeral)
  from a same have valid: "isValidMessage (read_packet (packet env'))" by simp
  from a have "isDuplicate (fst (loop_hybrid fp st env)) (read_packet (packet env)) (t_isDuplicate env')"
    unfolding loop_hybrid_def
    using isDuplicate_after_forwarding [of env st "forwardMessage fp" "t_isDuplicate env'"]
      keeps_cache_forwardMessage [of fp]
    by blast
  with same have "isDuplicate (fst (loop_hybrid fp st env)) (read_packet (packet env')) (t_isDuplicate env')"
    by simp
  then show "snd (loop_hybrid fp (fst (loop_hybrid fp st env)) env') = [Serial DuplicateDropped]"
    unfolding loop_hybrid_def using ne valid by (simp add: drops_duplicate)
  from a have "isDuplicate (fst (loop_relay st env)) (read_packet (packet env)) (t_isDuplicate env')"
    unfolding loop_relay_def
    using isDuplicate_after_forwarding [of env st forwardMessage_relay "t_isDuplicate env'"]
      keeps_cache_forwardMessage_relay
    by blast
  with same have "isDuplicate (fst (loop_relay st env)) (read_packet (packet env')) (t_isDuplicate env')"
    by simp
  then show "snd (loop_relay (fst (loop_relay st env)) env') = [Serial DuplicateDropped]"
    unfolding loop_relay_def using ne valid by (simp add: drops_duplicate)
qed

lemma take_long_packet: "take 63 (long_packet tail) = ''FIRE,'' @ replicate 58 (CHR ''7'')"
  by (simp add: long_packet_def)

lemma cstr_long_packet: "cstr (read_packet (long_packet tail)) = ''FIRE,'' @ replicate 58 (CHR ''7'')"
  by (simp add: read_packet_eq MSG_BYTES_def take_long_packet)
     (simp add: cstr_def NUL_def takeWhile_append)

theorem cache_entries_at_most_63_bytes_witness:
  "cache_ok relay_init \<and>
   long_packet ''abc'' \<noteq> long_packet ''xyz'' \<and>
   take 63 (packet (env0\<lparr>packet := long_packet ''abc''\<rparr>))
     = take 63 (packet (env0\<lparr>packet := long_packet ''xyz'', t_isDuplicate := 1200\<rparr>)) \<and>
   packet (env0\<lparr>packet := long_packet ''abc''\<rparr>) \<noteq> [] \<and>
   isValidMessage (read_packet (packet (env0\<lparr>packet := long_packet ''abc''\<rparr>))) \<and>
   \<not> isDuplicate relay_init (read_packet (packet (env0\<lparr>packet := long_packet ''abc''\<rparr>)))
        (t_isDuplicate (env0\<lparr>packet := long_packet ''abc''\<rparr>)) \<and>
   t_isDuplicate (env0\<lparr>packet := long_packet ''xyz'', t_isDuplicate := 1200\<rparr>)
     - t_cacheMessage (env0\<lparr>packet := long_packet ''abc''\<rparr>) < DEDUPE_WINDOW \<and>
   cache_ok (fst (loop_relay relay_init (env0\<lparr>packet := long_packet ''abc''\<rparr>))) \<and>
   snd (loop_relay (fst (loop_relay relay_init (env0\<lparr>packet := long_packet ''abc''\<rparr>)))
          (env0\<lparr>packet := long_packet ''xyz'', t_isDuplicate := 1200\<rparr>)) = [Serial DuplicateDropped] \<and>
   snd (loop_hybrid ideal_fpu (fst (loop_hybrid ideal_fpu relay_init (env0\<lparr>packet := long_packet ''abc''\<rparr>)))
          (env0\<lparr>packet := long_packet ''xyz'', t_isDuplicate := 1200\<rparr>)) = [Serial DuplicateDropped]"
proof -
  let ?a = "env0\<lparr>packet := long_packet ''abc''\<rparr>"
  let ?b = "env0\<lparr>packet := long_packet ''xyz'', t_isDuplicate := 1200\<rparr>"
  have d: "long_packet ''abc'' \<noteq> long_packet ''xyz''"
    by (simp add: long_packet_def)
  have valid: "isValidMessage (read_packet (long_packet ''abc''))"
    by (simp add: isValidMessage_iff cstr_long_packet)
  have fresh: "\<not> isDuplicate relay_init (read_packet (long_packet ''abc'')) t" for t
    by (simp add: isDuplicate_iff_slots cstr_long_packet)
       (simp add: relay_init_def cstr_def NUL_def MSG_BYTES_def CACHE_SIZE_def)
  have h: "cache_ok relay_init \<and> take 63 (packet ?a) = take 63 (packet ?b) \<and> packet ?a \<noteq> [] \<and>
      isValidMessage (read_packet (packet ?a)) \<and>
      \<not> isDuplicate relay_init (read_packet (packet ?a)) (t_isDuplicate ?a) \<and>
      t_isDuplicate ?b - t_cacheMessage ?a < DEDUPE_WINDOW"
    using cache_ok_relay_init valid fresh
    by (simp add: take_long_packet) (simp add: long_packet_def env0_def DEDUPE_WINDOW_def)
  from cache_entries_at_most_63_bytes [of relay_init ideal_fpu ?a "[]" "[]" ?b] h
  have "cache_ok (fst (loop_relay relay_init ?a))"
    and "snd (loop_relay (fst (loop_relay relay_init ?a)) ?b) = [Serial DuplicateDropped]"
    and "snd (loop_hybrid ideal_fpu (fst (loop_hybrid ideal_fpu relay_init ?a)) ?b) = [Serial DuplicateDropped]"
    by blast+
  with h d show ?thesis by blast
qed

section \<open>Transmitter and receiver\<close>

lemma sendLoRaAlert_FIRE:
  "sendLoRaAlert fp st smp ''FIRE'' x = [] \<or>
   (\<exists>rest. sendLoRaAlert fp st smp ''FIRE'' x = [''FIRE,'' @ rest])"
  by (simp add: sendLoRaAlert_def Let_def cstr_def NUL_def)

lemma fire_sent_sendLoRaAlert:
  "fire_sent (sendLoRaAlert fp st smp ''FIRE'' x) = loraReady st"
  "quake_sent (sendLoRaAlert fp st smp ''FIRE'' x) = False"
  "fire_sent (sendLoRaAlert fp st smp ''QUAKE'' x) = False"
  "quake_sent (sendLoRaAlert fp st smp ''QUAKE'' x) = loraReady st"
  by (simp_all add: sendLoRaAlert_def Let_def cstr_def NUL_def fire_sent_def quake_sent_def)

lemma sent_append:
  "fire_sent (a @ b) = (fire_sent a \<or> fire_sent b)"
  "quake_sent (a @ b) = (quake_sent a \<or> quake_sent b)"
  "fire_sent [] = False" "quake_sent [] = False"
  by (simp_all add: fire_sent_def quake_sent_def)

lemma after_commas_tail: "after_commas m = r # rs \<Longrightarrow> after_commas r = rs"
  by (induction m) (auto split: if_splits)

lemma strchr_comma_None: "strchr m (CHR '','') = None \<longleftrightarrow> after_commas m = []"
  by (induction m) auto

lemma strchr_comma_Some:
  "strchr m (CHR '','') = Some p \<Longrightarrow> after_commas m = tl p # after_commas (tl p)"
  by (induction m) (auto split: if_splits)

lemma parseFields_positional:
  "parseFields fp ty m = \<lparr> type = ty, lat = field fp m 0, lng = field fp m 1, extra = field fp m 2 \<rparr>"
proof (cases "strchr m (CHR '','')")
  case None
  then have "after_commas m = []"
    by (simp add: strchr_comma_None)
  with None show ?thesis
    by (simp add: parseFields_def field_def Let_def)
next
  case (Some p)
  note p = strchr_comma_Some [OF Some]
  show ?thesis
  proof (cases "strchr (tl p) (CHR '','')")
    case None
    then have "after_commas (tl p) = []"
      by (simp add: strchr_comma_None)
    with Some p None show ?thesis
      by (simp add: parseFields_def field_def Let_def)
  next
    case q: (Some q)
    note q' = strchr_comma_Some [OF q]
    show ?thesis
    proof (cases "strchr (tl q) (CHR '','')")
      case None
      then have "after_commas (tl q) = []"
        by (simp add: strchr_comma_None)
      with Some p q q' None show ?thesis
        by (simp add: parseFields_def field_def Let_def)
    next
      case r: (Some r)
      note r' = strchr_comma_Some [OF r]
      from Some p q q' r r' show ?thesis
        by (simp add: parseFields_def field_def Let_def)
    qed
  qed
qed

text \<open>
  Claim C7. For a message whose prefix is FIRE or QUAKE, \<open>parseMessage\<close> returns that
  kind and three numbers: field \<open>k\<close> is \<^verbatim>\<open>atof\<close> of the text after the
  \<open>k+1\<close>-th comma when the message has that many commas, and 0.0 otherwise. Every
  \<^verbatim>\<open>strchr\<close> result is tested before it is used, so no input makes the function
  read through a null pointer: it is total.
\<close>

theorem parseMessage_total_zero_filled:
  "(take 4 (cstr m) = ''FIRE'' \<longrightarrow>
      parseMessage fp m
        = \<lparr> type = FIRE, lat = field fp m 0, lng = field fp m 1, extra = field fp m 2 \<rparr>) \<and>
   (take 4 (cstr m) \<noteq> ''FIRE'' \<and> take 5 (cstr m) = ''QUAKE'' \<longrightarrow>
      parseMessage fp m
        = \<lparr> type = QUAKE, lat = field fp m 0, lng = field fp m 1, extra = field fp m 2 \<rparr>) \<and>
   (length (after_commas m) \<le> k \<longrightarrow> field fp m k = flit fp 0 0) \<and>
   (k < length (after_commas m) \<longrightarrow> field fp m k = atof fp (after_commas m ! k))"
proof -
  have a: "strncmp m ''FIRE'' 4 = 0 \<longleftrightarrow> take 4 (cstr m) = ''FIRE''"
    by (rule strncmp_0_iff) (simp_all add: NUL_def)
  have b: "strncmp m ''QUAKE'' 5 = 0 \<longleftrightarrow> take 5 (cstr m) = ''QUAKE''"
    by (rule strncmp_0_iff) (simp_all add: NUL_def)
  show ?thesis
    by (simp add: parseMessage_def a b parseFields_positional field_def)
qed

theorem parseMessage_total_zero_filled_witness:
  "take 4 (cstr fire_payload) = ''FIRE'' \<and>
   parseMessage ideal_fpu fire_payload
     = \<lparr> type = FIRE, lat = 30.768885, lng = 76.57521, extra = 1 \<rparr> \<and>
   take 4 (cstr ''QUAKE,12.5'') \<noteq> ''FIRE'' \<and> take 5 (cstr ''QUAKE,12.5'') = ''QUAKE'' \<and>
   length (after_commas ''QUAKE,12.5'') \<le> 1 \<and>
   parseMessage ideal_fpu ''QUAKE,12.5'' = \<lparr> type = QUAKE, lat = 12.5, lng = 0, extra = 0 \<rparr>"
proof -
  have f: "take 4 (cstr fire_payload) = ''FIRE''"
    by (simp add: fire_payload_def cstr_def NUL_def)
  have q: "take 4 (cstr ''QUAKE,12.5'') \<noteq> ''FIRE'' \<and> take 5 (cstr ''QUAKE,12.5'') = ''QUAKE''"
    by (simp add: cstr_def NUL_def)
  have n: "length (after_commas ''QUAKE,12.5'') \<le> 1"
    by (simp add: NUL_def)
  have vals: "field ideal_fpu fire_payload 0 = 30.768885" "field ideal_fpu fire_payload 1 = 76.57521"
    "field ideal_fpu fire_payload 2 = 1"
    "field ideal_fpu ''QUAKE,12.5'' 0 = 12.5" "flit ideal_fpu 0 0 = 0"
    by (simp_all add: field_def fire_payload_def NUL_def ideal_fpu_def atof_decimal_def)
  from parseMessage_total_zero_filled [of fire_payload ideal_fpu 0] f
  have 1: "parseMessage ideal_fpu fire_payload
     = \<lparr> type = FIRE, lat = field ideal_fpu fire_payload 0, lng = field ideal_fpu fire_payload 1,
         extra = field ideal_fpu fire_payload 2 \<rparr>"
    by blast
  from parseMessage_total_zero_filled [of "''QUAKE,12.5''" ideal_fpu 1] q n
  have 2: "parseMessage ideal_fpu ''QUAKE,12.5''
     = \<lparr> type = QUAKE, lat = field ideal_fpu ''QUAKE,12.5'' 0, lng = field ideal_fpu ''QUAKE,12.5'' 1,
         extra = field ideal_fpu ''QUAKE,12.5'' 2 \<rparr>"
    and 3: "field ideal_fpu ''QUAKE,12.5'' 1 = flit ideal_fpu 0 0"
    by blast+
  from parseMessage_total_zero_filled [of "''QUAKE,12.5''" ideal_fpu 2] n
  have 4: "field ideal_fpu ''QUAKE,12.5'' 2 = flit ideal_fpu 0 0"
    by simp
  from f q n 1 2 3 4 vals show ?thesis by simp
qed





lemma sendLoRaAlert_fields:
  "loraReady a = loraReady b \<Longrightarrow> sendLoRaAlert fp a smp ty x = sendLoRaAlert fp b smp ty x"
  by (simp add: sendLoRaAlert_def)

lemma fire_step:
  assumes "0 \<le> fireCount st"
  shows "loop_fire_detection fp st smp now =
     (let c1 = max 0 (fireCount st + (if flame_pin_low smp then 1 else - 1));
          alert = (3 \<le> c1 \<and> 5000 < now - lastFireAlert st)
      in (st\<lparr> fireCount := (if alert then 0 else c1),
               lastFireAlert := (if alert then now else lastFireAlert st) \<rparr>,
          if alert then sendLoRaAlert fp st smp ''FIRE'' (flit fp 10 1) else []))"
  using assms
  by (auto simp: loop_fire_detection_def Let_def FLAME_SAMPLES_NEEDED_def FIRE_MIN_INTERVAL_def
        max_def sendLoRaAlert_def)



lemma quake_frame:
  "fireCount (fst (loop_quake_detection fp st smp now)) = fireCount st"
  "lastFireAlert (fst (loop_quake_detection fp st smp now)) = lastFireAlert st"
  "loraReady (fst (loop_quake_detection fp st smp now)) = loraReady st"
  "accelReady (fst (loop_quake_detection fp st smp now)) = accelReady st"
  "fire_sent (snd (loop_quake_detection fp st smp now)) = False"
  by (simp_all add: loop_quake_detection_def Let_def fire_sent_sendLoRaAlert sent_append)




lemma loop_transmitter_parts:
  "fst (loop_transmitter fp st smp now)
     = fst (loop_quake_detection fp (fst (loop_fire_detection fp st smp now)) smp now)"
  "snd (loop_transmitter fp st smp now)
     = snd (loop_fire_detection fp st smp now) @
       snd (loop_quake_detection fp (fst (loop_fire_detection fp st smp now)) smp now)"
  by (simp_all add: loop_transmitter_def case_prod_beta)


lemma fire_pass:
  fixes fp :: "'f fpu" and st :: "'f transmitter" and smp :: "'f sample" and now :: millis
  assumes nonneg: "0 \<le> fireCount st" and lora: "loraReady st"
  defines "c1 \<equiv> max 0 (fireCount st + (if flame_pin_low smp then 1 else - 1))"
  defines "alert \<equiv> (3 \<le> c1 \<and> 5000 < now - lastFireAlert st)"
  defines "r \<equiv> loop_transmitter fp st smp now"
  shows "fire_sent (snd r) = alert"
    and "fireCount (fst r) = (if alert then 0 else c1)"
    and "lastFireAlert (fst r) = (if alert then now else lastFireAlert st)"
    and "loraReady (fst r)"
proof -
  let ?f = "loop_fire_detection fp st smp now"
  have f: "?f = (st\<lparr> fireCount := (if alert then 0 else c1),
               lastFireAlert := (if alert then now else lastFireAlert st) \<rparr>,
          if alert then sendLoRaAlert fp st smp ''FIRE'' (flit fp 10 1) else [])"
    using fire_step [OF nonneg, of fp smp now] by (simp add: Let_def c1_def alert_def)
  have "fire_sent (snd ?f) = alert"
    using lora by (simp add: f fire_sent_sendLoRaAlert sent_append)
  then show "fire_sent (snd r) = alert"
    by (simp add: r_def loop_transmitter_parts sent_append quake_frame)
  show "fireCount (fst r) = (if alert then 0 else c1)"
    by (simp add: r_def loop_transmitter_parts quake_frame f)
  show "lastFireAlert (fst r) = (if alert then now else lastFireAlert st)"
    by (simp add: r_def loop_transmitter_parts quake_frame f)
  show "loraReady (fst r)"
    using lora by (simp add: r_def loop_transmitter_parts quake_frame f)
qed

lemma run_transmitter_fire_spec:
  "0 \<le> fireCount st \<Longrightarrow> loraReady st \<Longrightarrow>
   map (\<lambda>r. (fireCount (fst r), fire_sent (snd r))) (run_transmitter fp st inputs)
     = fire_spec (fireCount st) (lastFireAlert st)
         (map (\<lambda>i. (flame_pin_low (fst i), snd i)) inputs)"
proof (induction inputs arbitrary: st)
  case Nil
  show ?case by simp
next
  case (Cons i inputs)
  obtain smp now where i: "i = (smp, now)" by (cases i)
  let ?r = "loop_transmitter fp st smp now"
  note p = fire_pass [OF Cons.prems, of fp smp now]
  from p(2) have "0 \<le> fireCount (fst ?r)" by simp
  from Cons.IH [OF this p(4)] p(1) p(2) p(3) show ?case
    by (simp add: i Let_def)
qed

text \<open>
  Claim C4. From a counter that is not negative, with the radio ready: one pass takes the
  counter to \<open>c1 = max 0 (fireCount + 1)\<close> on detection and \<open>max 0 (fireCount - 1)\<close>
  otherwise; it sends a FIRE packet exactly when \<open>c1 \<ge> 3\<close> and
  \<open>now - lastFireAlert > 5000\<close> (32-bit unsigned), and then the counter is 0 and
  \<open>lastFireAlert\<close> is \<open>now\<close>; otherwise the counter is \<open>c1\<close>. Over any
  sequence of passes the counters and the alerts are those of \<open>fire_spec\<close>, the
  recurrence as the specification words it.
\<close>

theorem fire_debounce_counter:
  "(0 \<le> fireCount st \<and> fireCount st < INT_MAX \<and> loraReady st \<longrightarrow>
      (let c1 = max 0 (fireCount st + (if flame_pin_low smp then 1 else - 1));
           alert = (3 \<le> c1 \<and> 5000 < now - lastFireAlert st);
           r = loop_transmitter fp st smp now
       in fire_sent (snd r) = alert \<and>
          fireCount (fst r) = (if alert then 0 else c1) \<and>
          lastFireAlert (fst r) = (if alert then now else lastFireAlert st))) \<and>
   (0 \<le> fireCount st \<and> fireCount st + int (length inputs) \<le> INT_MAX \<and> loraReady st \<longrightarrow>
      map (\<lambda>r. (fireCount (fst r), fire_sent (snd r))) (run_transmitter fp st inputs)
        = fire_spec (fireCount st) (lastFireAlert st)
            (map (\<lambda>i. (flame_pin_low (fst i), snd i)) inputs))"
  using fire_pass [of st fp smp now] run_transmitter_fire_spec [of st fp inputs]
  by (simp add: Let_def)

theorem fire_debounce_counter_witness:
  "0 \<le> fireCount (transmitter_init ideal_fpu) \<and>
   fireCount (transmitter_init ideal_fpu) + int (length [(burning, 6000 :: millis), (burning, 6010), (burning, 6020)]) \<le> INT_MAX \<and>
   loraReady (transmitter_init ideal_fpu) \<and>
   map (\<lambda>r. (fireCount (fst r), fire_sent (snd r)))
     (run_transmitter ideal_fpu (transmitter_init ideal_fpu)
        [(burning, 6000), (burning, 6010), (burning, 6020)])
     = [(1, False), (2, False), (0, True)] \<and>
   fire_sent (snd (loop_transmitter ideal_fpu ((transmitter_init ideal_fpu)\<lparr>fireCount := 2\<rparr>) burning 6020))"
proof -
  let ?st = "transmitter_init ideal_fpu"
  let ?in = "[(burning, 6000 :: millis), (burning, 6010), (burning, 6020)]"
  have fields: "fireCount ?st = 0" "lastFireAlert ?st = 0" "loraReady ?st"
    by (simp_all add: transmitter_init_def)
  have fields2: "fireCount (?st\<lparr>fireCount := 2\<rparr>) = 2" "lastFireAlert (?st\<lparr>fireCount := 2\<rparr>) = 0"
    "loraReady (?st\<lparr>fireCount := 2\<rparr>)"
    by (simp_all add: transmitter_init_def)
  have flame: "flame_pin_low burning"
    by (simp add: burning_def)
  have h: "0 \<le> fireCount ?st \<and> fireCount ?st + int (length ?in) \<le> INT_MAX \<and> loraReady ?st"
    by (simp add: fields INT_MAX_def)
  have h2: "0 \<le> fireCount (?st\<lparr>fireCount := 2\<rparr>) \<and> fireCount (?st\<lparr>fireCount := 2\<rparr>) < INT_MAX \<and>
      loraReady (?st\<lparr>fireCount := 2\<rparr>)"
    by (simp add: fields2 INT_MAX_def)
  have s: "fire_spec (fireCount ?st) (lastFireAlert ?st) (map (\<lambda>i. (flame_pin_low (fst i), snd i)) ?in)
     = [(1, False), (2, False), (0, True)]"
    by (simp add: fields flame Let_def)
  have 1: "map (\<lambda>r. (fireCount (fst r), fire_sent (snd r))) (run_transmitter ideal_fpu ?st ?in)
     = [(1, False), (2, False), (0, True)]"
    using fire_debounce_counter [of ?st burning 0 ideal_fpu ?in, THEN conjunct2, THEN mp, OF h]
    by (simp only: s)
  have al: "3 \<le> max 0 (fireCount (?st\<lparr>fireCount := 2\<rparr>) + (if flame_pin_low burning then 1 else - 1)) \<and>
      5000 < (6020 :: millis) - lastFireAlert (?st\<lparr>fireCount := 2\<rparr>)"
    by (simp add: fields2 flame)
  have 2: "fire_sent (snd (loop_transmitter ideal_fpu (?st\<lparr>fireCount := 2\<rparr>) burning 6020))"
    using fire_debounce_counter [of "?st\<lparr>fireCount := 2\<rparr>" burning 6020 ideal_fpu "[]",
        THEN conjunct1, THEN mp, OF h2] al
    by (simp only: Let_def)
  from h 1 2 show ?thesis by (intro conjI) simp_all
qed




end
